theory Spec2Isabelle
  imports Complex_Main
begin

section \<open>Python values, errors and array indexing\<close>

text \<open>
  The exceptions the modelled code can raise. A function that can raise returns
  \<open>py_error + 'a\<close>, with \<open>Inl\<close> the exception.
\<close>

datatype py_error =
  IndexError | ValueError | KeyError | AttributeError | OverflowError | ZeroDivisionError

text \<open>
  A two-dimensional integer array is the list of its rows; \<open>has_shape n k\<close> says that
  it has \<open>n\<close> rows of \<open>k\<close> entries each. The fields \<open>N\<close> and \<open>M\<close> of an environment are
  stored beside the array, so every read by index is checked against the array itself.
\<close>

type_synonym matrix = "int list list"

definition has_shape :: "nat \<Rightarrow> nat \<Rightarrow> matrix \<Rightarrow> bool" where
  "has_shape n k m = (length m = n \<and> (\<forall>r \<in> set m. length r = k))"

text \<open>
  Indexing a Python list or the first axis of an array of length \<open>n\<close> with an integer:
  an index in \<open>[-n, 0)\<close> counts from the end, anything outside \<open>[-n, n)\<close> raises.
\<close>

definition py_index :: "nat \<Rightarrow> int \<Rightarrow> py_error + nat" where
  "py_index n i =
     (if 0 \<le> i \<and> i < int n then Inr (nat i)
      else if - int n \<le> i \<and> i < 0 then Inr (nat (i + int n))
      else Inl IndexError)"

definition row_at :: "matrix \<Rightarrow> int \<Rightarrow> py_error + int list" where
  "row_at m i = (case py_index (length m) i of Inl e \<Rightarrow> Inl e | Inr k \<Rightarrow> Inr (m ! k))"

definition entry_at :: "matrix \<Rightarrow> int \<Rightarrow> nat \<Rightarrow> py_error + int" where
  "entry_at m i j =
     (case row_at m i of
        Inl e \<Rightarrow> Inl e
      | Inr r \<Rightarrow> if j < length r then Inr (r ! j) else Inl IndexError)"

text \<open>\<open>next((i for i, x in enumerate(row) if x != 0), None)\<close>\<close>

fun lead_from :: "nat \<Rightarrow> int list \<Rightarrow> nat option" where
  "lead_from k [] = None"
| "lead_from k (x # xs) = (if x \<noteq> 0 then Some k else lead_from (Suc k) xs)"

definition lead_of :: "int list \<Rightarrow> nat option" where
  "lead_of r = lead_from 0 r"

text \<open>
  \<open>(a + b) % f\<close> on integer rows. For a divisor other than zero Python's remainder is
  the one of HOL (the sign of the divisor); NumPy's integer remainder by zero is zero.
  The entries are unbounded integers here: the sums of two entries below the modulus
  stay far inside the 64 bits of the arrays.
\<close>

definition np_mod :: "int \<Rightarrow> int \<Rightarrow> int" where
  "np_mod x f = (if f = 0 then 0 else x mod f)"

definition add_rows_mod :: "int \<Rightarrow> int list \<Rightarrow> int list \<Rightarrow> int list" where
  "add_rows_mod f a b = map (\<lambda>(x, y). np_mod (x + y) f) (zip a b)"

definition np_zeros :: "nat \<Rightarrow> nat \<Rightarrow> matrix" where
  "np_zeros n k = replicate n (replicate k 0)"

section \<open>RowEchelonEnvironment\<close>

record RowEchelonEnvironment =
  re_N :: nat
  re_M :: nat
  re_F :: int
  re_matrix :: matrix
  re_action_tuples :: "(string \<times> nat \<times> nat) list"

definition action_tuples_of :: "nat \<Rightarrow> (string \<times> nat \<times> nat) list" where
  "action_tuples_of n =
     concat (map (\<lambda>i. map (\<lambda>j. (''swap'', i, j)) [0..<i]) [0..<n])
     @ concat (map (\<lambda>i. map (\<lambda>j. (''add'', i, j)) (filter (\<lambda>j. i \<noteq> j) [0..<n])) [0..<n])"

definition RowEchelon_init :: "nat \<times> nat \<Rightarrow> int \<Rightarrow> RowEchelonEnvironment" where
  "RowEchelon_init shape modulus =
     \<lparr> re_N = fst shape, re_M = snd shape, re_F = modulus,
       re_matrix = np_zeros (fst shape) (snd shape),
       re_action_tuples = action_tuples_of (fst shape) \<rparr>"

definition re_action_size :: "RowEchelonEnvironment \<Rightarrow> nat" where
  "re_action_size env = length (re_action_tuples env)"

text \<open>\<open>_add_rows(pair)\<close>: row \<open>pair[1]\<close> becomes itself plus row \<open>pair[0]\<close>, modulo \<open>F\<close>.\<close>

definition add_rows :: "int \<Rightarrow> matrix \<Rightarrow> nat \<times> nat \<Rightarrow> py_error + matrix" where
  "add_rows f m pair =
     (case row_at m (int (snd pair)) of
        Inl e \<Rightarrow> Inl e
      | Inr r1 \<Rightarrow>
          (case row_at m (int (fst pair)) of
             Inl e \<Rightarrow> Inl e
           | Inr r0 \<Rightarrow> Inr (m[snd pair := add_rows_mod f r1 r0])))"

text \<open>
  \<open>_swap_rows(pair)\<close>: the right-hand side reads rows \<open>pair[1]\<close> and \<open>pair[0]\<close> into a
  new array, which is then stored at rows \<open>pair[0]\<close> and \<open>pair[1]\<close>.
\<close>

definition swap_rows :: "matrix \<Rightarrow> nat \<times> nat \<Rightarrow> py_error + matrix" where
  "swap_rows m pair =
     (case row_at m (int (snd pair)) of
        Inl e \<Rightarrow> Inl e
      | Inr r1 \<Rightarrow>
          (case row_at m (int (fst pair)) of
             Inl e \<Rightarrow> Inl e
           | Inr r0 \<Rightarrow> Inr (m[fst pair := r1, snd pair := r0])))"

text \<open>
  \<open>_is_row_echelon\<close>: the loop over \<open>range(N)\<close>, with \<open>prev_lead\<close> an integer or
  \<open>None\<close> (it starts at \<open>-1\<close>).
\<close>

fun row_echelon_loop :: "matrix \<Rightarrow> nat list \<Rightarrow> int option \<Rightarrow> py_error + bool" where
  "row_echelon_loop m [] prev_lead = Inr True"
| "row_echelon_loop m (row # rest) prev_lead =
     (case row_at m (int row) of
        Inl e \<Rightarrow> Inl e
      | Inr r \<Rightarrow>
          (case lead_of r of
             None \<Rightarrow> row_echelon_loop m rest None
           | Some next_lead \<Rightarrow>
               (case prev_lead of
                  None \<Rightarrow> Inr False
                | Some p \<Rightarrow>
                    if p \<ge> int next_lead then Inr False
                    else row_echelon_loop m rest (Some (int next_lead)))))"

definition is_row_echelon :: "RowEchelonEnvironment \<Rightarrow> py_error + bool" where
  "is_row_echelon env = row_echelon_loop (re_matrix env) [0..<re_N env] (Some (- 1))"

text \<open>
  \<open>step(action)\<close> returns the environment after the update and the returned tuple
  \<open>(np.copy(self.matrix), -1, self._is_row_echelon())\<close>.
\<close>

definition RowEchelon_step ::
  "RowEchelonEnvironment \<Rightarrow> int \<Rightarrow> py_error + (RowEchelonEnvironment \<times> matrix \<times> int \<times> bool)" where
  "RowEchelon_step env action =
     (case py_index (length (re_action_tuples env)) action of
        Inl e \<Rightarrow> Inl e
      | Inr k \<Rightarrow>
          (let act = re_action_tuples env ! k in
           case (if fst act = ''add'' then add_rows (re_F env) (re_matrix env) (snd act)
                 else swap_rows (re_matrix env) (snd act)) of
             Inl e \<Rightarrow> Inl e
           | Inr m' \<Rightarrow>
               (let env' = env\<lparr>re_matrix := m'\<rparr> in
                case is_row_echelon env' of
                  Inl e \<Rightarrow> Inl e
                | Inr d \<Rightarrow> Inr (env', m', - 1, d))))"

text \<open>
  An episode fragment: the actions are stepped one after the other; the result is the
  final environment and the list of returned \<open>(reward, done)\<close> pairs, or the first
  exception.
\<close>

fun RowEchelon_run ::
  "RowEchelonEnvironment \<Rightarrow> int list \<Rightarrow> py_error + (RowEchelonEnvironment \<times> (int \<times> bool) list)" where
  "RowEchelon_run env [] = Inr (env, [])"
| "RowEchelon_run env (a # as) =
     (case RowEchelon_step env a of
        Inl e \<Rightarrow> Inl e
      | Inr (env', ob, r, d) \<Rightarrow>
          (case RowEchelon_run env' as of
             Inl e \<Rightarrow> Inl e
           | Inr (env'', rs) \<Rightarrow> Inr (env'', (r, d) # rs)))"

text \<open>The class invariant: the array has the shape and the actions the constructor gave it.\<close>

definition re_wf :: "RowEchelonEnvironment \<Rightarrow> bool" where
  "re_wf env = (has_shape (re_N env) (re_M env) (re_matrix env)
                \<and> re_action_tuples env = action_tuples_of (re_N env))"

text \<open>
  \<open>_random_matrix\<close>: \<open>np.random.randint(F, size=(N, M))\<close>. The sample \<open>g\<close> is what the
  generator draws for each position; NumPy rejects a modulus that is not positive.
\<close>

definition RowEchelon_random_matrix ::
  "RowEchelonEnvironment \<Rightarrow> (nat \<Rightarrow> nat \<Rightarrow> int) \<Rightarrow> py_error + matrix" where
  "RowEchelon_random_matrix env g =
     (if re_F env \<le> 0 then Inl ValueError
      else Inr (map (\<lambda>i. map (\<lambda>j. g i j) [0..<re_M env]) [0..<re_N env]))"

text \<open>
  \<open>reset\<close>: the generator is the sequence \<open>rnd\<close> of samples and the position \<open>k\<close> of
  the next one. The \<open>while\<close> loop draws until the matrix is not in row echelon form; a
  loop that never ends has the value \<open>None\<close>.
\<close>

partial_function (option) RowEchelon_reset_loop ::
  "RowEchelonEnvironment \<Rightarrow> (nat \<Rightarrow> nat \<Rightarrow> nat \<Rightarrow> int) \<Rightarrow> nat
     \<Rightarrow> (py_error + (RowEchelonEnvironment \<times> nat)) option" where
  "RowEchelon_reset_loop env rnd k =
     (case is_row_echelon env of
        Inl e \<Rightarrow> Some (Inl e)
      | Inr b \<Rightarrow>
          if b then
            (case RowEchelon_random_matrix env (rnd k) of
               Inl e \<Rightarrow> Some (Inl e)
             | Inr m \<Rightarrow> RowEchelon_reset_loop (env\<lparr>re_matrix := m\<rparr>) rnd (Suc k))
          else Some (Inr (env, k)))"

declare RowEchelon_reset_loop.simps [code]

definition RowEchelon_reset ::
  "RowEchelonEnvironment \<Rightarrow> (nat \<Rightarrow> nat \<Rightarrow> nat \<Rightarrow> int) \<Rightarrow> nat
     \<Rightarrow> (py_error + (RowEchelonEnvironment \<times> matrix \<times> nat)) option" where
  "RowEchelon_reset env rnd k =
     (case RowEchelon_random_matrix env (rnd k) of
        Inl e \<Rightarrow> Some (Inl e)
      | Inr m \<Rightarrow>
          (case RowEchelon_reset_loop (env\<lparr>re_matrix := m\<rparr>) rnd (Suc k) of
             None \<Rightarrow> None
           | Some (Inl e) \<Rightarrow> Some (Inl e)
           | Some (Inr (env', k')) \<Rightarrow> Some (Inr (env', re_matrix env', k'))))"

section \<open>RowChoiceEnvironment\<close>

record RowChoiceEnvironment =
  rc_N :: nat
  rc_M :: nat
  rc_density :: real
  rc_matrix :: matrix

definition RowChoice_init :: "nat \<times> nat \<Rightarrow> real \<Rightarrow> RowChoiceEnvironment" where
  "RowChoice_init shape density =
     \<lparr> rc_N = fst shape, rc_M = snd shape, rc_density = density,
       rc_matrix = np_zeros (fst shape) (snd shape) \<rparr>"

definition rc_action_size :: "RowChoiceEnvironment \<Rightarrow> nat" where
  "rc_action_size env = rc_N env"

text \<open>
  \<open>_is_reduced\<close>, the same code in both row-choice classes. The inner loop looks for a
  row other than \<open>row\<close> with a non-zero entry in the column \<open>lead\<close>; the comparison
  \<open>i != row\<close> comes first and skips the read.
\<close>

fun column_clear :: "matrix \<Rightarrow> nat \<Rightarrow> nat \<Rightarrow> nat list \<Rightarrow> py_error + bool" where
  "column_clear m row lead [] = Inr True"
| "column_clear m row lead (i # rest) =
     (if i \<noteq> row then
        (case entry_at m (int i) lead of
           Inl e \<Rightarrow> Inl e
         | Inr x \<Rightarrow> if x \<noteq> 0 then Inr False else column_clear m row lead rest)
      else column_clear m row lead rest)"

fun reduced_loop :: "matrix \<Rightarrow> nat \<Rightarrow> nat list \<Rightarrow> py_error + bool" where
  "reduced_loop m n [] = Inr True"
| "reduced_loop m n (row # rest) =
     (case row_at m (int row) of
        Inl e \<Rightarrow> Inl e
      | Inr r \<Rightarrow>
          (case lead_of r of
             None \<Rightarrow> reduced_loop m n rest
           | Some lead \<Rightarrow>
               (case column_clear m row lead [0..<n] of
                  Inl e \<Rightarrow> Inl e
                | Inr ok \<Rightarrow> if ok then reduced_loop m n rest else Inr False)))"

definition is_reduced :: "matrix \<Rightarrow> nat \<Rightarrow> py_error + bool" where
  "is_reduced m n = reduced_loop m n [0..<n]"

text \<open>
  The loop of \<open>step\<close> over \<open>range(N)\<close>: every row other than the chosen one with a
  non-zero entry in the column \<open>lead\<close> gets the chosen row added modulo 2, and \<open>moves\<close>
  counts them. \<open>action\<close> is the integer the caller passed: a negative one is never
  equal to \<open>i\<close>, and \<open>matrix[action, :]\<close> reads the row it denotes at that moment.
\<close>

fun pivot_loop :: "int \<Rightarrow> nat \<Rightarrow> nat list \<Rightarrow> matrix \<Rightarrow> nat \<Rightarrow> py_error + (matrix \<times> nat)" where
  "pivot_loop action lead [] m moves = Inr (m, moves)"
| "pivot_loop action lead (i # rest) m moves =
     (if int i \<noteq> action then
        (case entry_at m (int i) lead of
           Inl e \<Rightarrow> Inl e
         | Inr x \<Rightarrow>
             if x \<noteq> 0 then
               (case row_at m (int i) of
                  Inl e \<Rightarrow> Inl e
                | Inr ri \<Rightarrow>
                    (case row_at m action of
                       Inl e \<Rightarrow> Inl e
                     | Inr ra \<Rightarrow>
                         pivot_loop action lead rest (m[i := add_rows_mod 2 ri ra]) (moves + 1)))
             else pivot_loop action lead rest m moves)
      else pivot_loop action lead rest m moves)"

definition RowChoice_step ::
  "RowChoiceEnvironment \<Rightarrow> int \<Rightarrow> py_error + (RowChoiceEnvironment \<times> matrix \<times> int \<times> bool)" where
  "RowChoice_step env action =
     (case row_at (rc_matrix env) action of
        Inl e \<Rightarrow> Inl e
      | Inr r \<Rightarrow>
          (case lead_of r of
             None \<Rightarrow>
               (case is_reduced (rc_matrix env) (rc_N env) of
                  Inl e \<Rightarrow> Inl e
                | Inr d \<Rightarrow> Inr (env, rc_matrix env, - 100, d))
           | Some lead \<Rightarrow>
               (case pivot_loop action lead [0..<rc_N env] (rc_matrix env) 0 of
                  Inl e \<Rightarrow> Inl e
                | Inr (m', moves) \<Rightarrow>
                    (case is_reduced m' (rc_N env) of
                       Inl e \<Rightarrow> Inl e
                     | Inr d \<Rightarrow>
                         if moves = 0 then Inr (env\<lparr>rc_matrix := m'\<rparr>, m', - 100, d)
                         else Inr (env\<lparr>rc_matrix := m'\<rparr>, m', - int moves, d)))))"

fun RowChoice_run ::
  "RowChoiceEnvironment \<Rightarrow> int list \<Rightarrow> py_error + (RowChoiceEnvironment \<times> (int \<times> bool) list)" where
  "RowChoice_run env [] = Inr (env, [])"
| "RowChoice_run env (a # as) =
     (case RowChoice_step env a of
        Inl e \<Rightarrow> Inl e
      | Inr (env', ob, r, d) \<Rightarrow>
          (case RowChoice_run env' as of
             Inl e \<Rightarrow> Inl e
           | Inr (env'', rs) \<Rightarrow> Inr (env'', (r, d) # rs)))"

text \<open>
  \<open>_random_matrix\<close>: \<open>1 * (np.random.rand(N, M) > (1 - density))\<close>. The sample \<open>u\<close> is
  what \<open>rand\<close> draws for each position; only its comparison with \<open>1 - density\<close> is used,
  and the product with \<open>1\<close> turns the truth value into \<open>0\<close> or \<open>1\<close>.
\<close>

definition threshold_matrix :: "nat \<Rightarrow> nat \<Rightarrow> real \<Rightarrow> (nat \<Rightarrow> nat \<Rightarrow> real) \<Rightarrow> matrix" where
  "threshold_matrix n k density u =
     map (\<lambda>i. map (\<lambda>j. 1 * (if u i j > 1 - density then 1 else 0)) [0..<k]) [0..<n]"

definition RowChoice_random_matrix :: "RowChoiceEnvironment \<Rightarrow> (nat \<Rightarrow> nat \<Rightarrow> real) \<Rightarrow> matrix" where
  "RowChoice_random_matrix env u = threshold_matrix (rc_N env) (rc_M env) (rc_density env) u"

partial_function (option) RowChoice_reset_loop ::
  "RowChoiceEnvironment \<Rightarrow> (nat \<Rightarrow> nat \<Rightarrow> nat \<Rightarrow> real) \<Rightarrow> nat
     \<Rightarrow> (py_error + (RowChoiceEnvironment \<times> nat)) option" where
  "RowChoice_reset_loop env rnd k =
     (case is_reduced (rc_matrix env) (rc_N env) of
        Inl e \<Rightarrow> Some (Inl e)
      | Inr b \<Rightarrow>
          if b then
            RowChoice_reset_loop (env\<lparr>rc_matrix := RowChoice_random_matrix env (rnd k)\<rparr>) rnd (Suc k)
          else Some (Inr (env, k)))"

declare RowChoice_reset_loop.simps [code]

definition RowChoice_reset ::
  "RowChoiceEnvironment \<Rightarrow> (nat \<Rightarrow> nat \<Rightarrow> nat \<Rightarrow> real) \<Rightarrow> nat
     \<Rightarrow> (py_error + (RowChoiceEnvironment \<times> matrix \<times> nat)) option" where
  "RowChoice_reset env rnd k =
     (case RowChoice_reset_loop (env\<lparr>rc_matrix := RowChoice_random_matrix env (rnd k)\<rparr>) rnd (Suc k) of
        None \<Rightarrow> None
      | Some (Inl e) \<Rightarrow> Some (Inl e)
      | Some (Inr (env', k')) \<Rightarrow> Some (Inr (env', rc_matrix env', k')))"

section \<open>RowChoiceEnvironmentExtra\<close>

text \<open>
  \<open>rows\<close> is the one-dimensional \<open>np.ones(N)\<close> after the constructor and the
  \<open>N \<times> 1\<close> array \<open>np.ones((N, 1))\<close> after \<open>reset\<close>. The entries of both arrays are the
  floats \<open>0.0\<close> and \<open>1.0\<close>, on which the sums and remainders of \<open>step\<close> are exact; they
  are modelled as integers.
\<close>

datatype ndarray = Arr1 "int list" | Arr2 matrix

record RowChoiceEnvironmentExtra =
  rx_N :: nat
  rx_M :: nat
  rx_density :: real
  rx_matrix :: matrix
  rx_rows :: ndarray

definition RowChoiceExtra_init :: "nat \<times> nat \<Rightarrow> real \<Rightarrow> RowChoiceEnvironmentExtra" where
  "RowChoiceExtra_init shape density =
     \<lparr> rx_N = fst shape, rx_M = snd shape, rx_density = density,
       rx_matrix = np_zeros (fst shape) (snd shape),
       rx_rows = Arr1 (replicate (fst shape) 1) \<rparr>"

text \<open>\<open>self.rows[action, 0]\<close>: two indices into a one-dimensional array raise.\<close>

definition rows_get :: "ndarray \<Rightarrow> int \<Rightarrow> py_error + int" where
  "rows_get a i = (case a of Arr1 xs \<Rightarrow> Inl IndexError | Arr2 m \<Rightarrow> entry_at m i 0)"

text \<open>\<open>self.rows[action] = 0\<close>\<close>

definition rows_clear :: "ndarray \<Rightarrow> int \<Rightarrow> py_error + ndarray" where
  "rows_clear a i =
     (case a of
        Arr1 xs \<Rightarrow>
          (case py_index (length xs) i of Inl e \<Rightarrow> Inl e | Inr k \<Rightarrow> Inr (Arr1 (xs[k := 0])))
      | Arr2 m \<Rightarrow>
          (case py_index (length m) i of
             Inl e \<Rightarrow> Inl e
           | Inr k \<Rightarrow> Inr (Arr2 (m[k := map (\<lambda>x. 0) (m ! k)]))))"

definition RowChoiceExtra_step ::
  "RowChoiceEnvironmentExtra \<Rightarrow> int
     \<Rightarrow> py_error + (RowChoiceEnvironmentExtra \<times> (ndarray \<times> matrix) \<times> int \<times> bool)" where
  "RowChoiceExtra_step env action =
     (case rows_get (rx_rows env) action of
        Inl e \<Rightarrow> Inl e
      | Inr is_new \<Rightarrow>
          (case rows_clear (rx_rows env) action of
             Inl e \<Rightarrow> Inl e
           | Inr rows' \<Rightarrow>
               (case row_at (rx_matrix env) action of
                  Inl e \<Rightarrow> Inl e
                | Inr r \<Rightarrow>
                    (case lead_of r of
                       None \<Rightarrow>
                         (case is_reduced (rx_matrix env) (rx_N env) of
                            Inl e \<Rightarrow> Inl e
                          | Inr d \<Rightarrow>
                              Inr (env\<lparr>rx_rows := rows'\<rparr>, (rows', rx_matrix env),
                                   1000 * (is_new - 1), d))
                     | Some lead \<Rightarrow>
                         (case pivot_loop action lead [0..<rx_N env] (rx_matrix env) 0 of
                            Inl e \<Rightarrow> Inl e
                          | Inr (m', moves) \<Rightarrow>
                              (case is_reduced m' (rx_N env) of
                                 Inl e \<Rightarrow> Inl e
                               | Inr d \<Rightarrow>
                                   if moves = 0 then
                                     Inr (env\<lparr>rx_matrix := m', rx_rows := rows'\<rparr>, (rows', m'),
                                          1000 * (is_new - 1), d)
                                   else
                                     Inr (env\<lparr>rx_matrix := m', rx_rows := rows'\<rparr>, (rows', m'),
                                          - int moves, d)))))))"

text \<open>\<open>_random_matrix\<close>: \<open>1.0 * (np.random.rand(N, M) > (1 - density))\<close>\<close>

definition RowChoiceExtra_random_matrix ::
  "RowChoiceEnvironmentExtra \<Rightarrow> (nat \<Rightarrow> nat \<Rightarrow> real) \<Rightarrow> matrix" where
  "RowChoiceExtra_random_matrix env u =
     threshold_matrix (rx_N env) (rx_M env) (rx_density env) u"

partial_function (option) RowChoiceExtra_reset_loop ::
  "RowChoiceEnvironmentExtra \<Rightarrow> (nat \<Rightarrow> nat \<Rightarrow> nat \<Rightarrow> real) \<Rightarrow> nat
     \<Rightarrow> (py_error + (RowChoiceEnvironmentExtra \<times> nat)) option" where
  "RowChoiceExtra_reset_loop env rnd k =
     (case is_reduced (rx_matrix env) (rx_N env) of
        Inl e \<Rightarrow> Some (Inl e)
      | Inr b \<Rightarrow>
          if b then
            RowChoiceExtra_reset_loop
              (env\<lparr>rx_matrix := RowChoiceExtra_random_matrix env (rnd k)\<rparr>) rnd (Suc k)
          else Some (Inr (env, k)))"

declare RowChoiceExtra_reset_loop.simps [code]

definition RowChoiceExtra_reset ::
  "RowChoiceEnvironmentExtra \<Rightarrow> (nat \<Rightarrow> nat \<Rightarrow> nat \<Rightarrow> real) \<Rightarrow> nat
     \<Rightarrow> (py_error + (RowChoiceEnvironmentExtra \<times> (ndarray \<times> matrix) \<times> nat)) option" where
  "RowChoiceExtra_reset env rnd k =
     (case RowChoiceExtra_reset_loop
             (env\<lparr>rx_matrix := RowChoiceExtra_random_matrix env (rnd k)\<rparr>) rnd (Suc k) of
        None \<Rightarrow> None
      | Some (Inl e) \<Rightarrow> Some (Inl e)
      | Some (Inr (env', k')) \<Rightarrow>
          (let rows' = Arr2 (replicate (rx_N env') [1]) in
           Some (Inr (env'\<lparr>rx_rows := rows'\<rparr>, (rows', rx_matrix env'), k'))))"

section \<open>The tuples returned by \<open>step\<close>\<close>

text \<open>
  The components of a returned Python tuple, in order. \<open>'f\<close> is the type of an Atari
  frame.
\<close>

datatype 'f pyval =
    PyInt int
  | PyFloat real
  | PyBool bool
  | PyArray matrix
  | PyStack "'f list"
  | PyDict "(string \<times> int) list"

definition RowEchelon_step_tuple :: "RowEchelonEnvironment \<Rightarrow> int \<Rightarrow> py_error + 'f pyval list" where
  "RowEchelon_step_tuple env action =
     (case RowEchelon_step env action of
        Inl e \<Rightarrow> Inl e
      | Inr (env', ob, r, d) \<Rightarrow> Inr [PyArray ob, PyInt r, PyBool d])"

definition RowChoice_step_tuple :: "RowChoiceEnvironment \<Rightarrow> int \<Rightarrow> py_error + 'f pyval list" where
  "RowChoice_step_tuple env action =
     (case RowChoice_step env action of
        Inl e \<Rightarrow> Inl e
      | Inr (env', ob, r, d) \<Rightarrow> Inr [PyArray ob, PyInt r, PyBool d])"

section \<open>AtariEnv\<close>

text \<open>
  The wrapped gym environment is outside the repository: its state is \<open>'g\<close>, its
  \<open>step\<close> is the parameter \<open>gym_step\<close>, which returns the new state of the emulator
  and the tuple \<open>(state, reward, done, info)\<close>, and \<open>frame_of\<close> stands for the
  down-sampling \<open>np.mean(state[::2, ::2], axis=2).astype(np.uint8)\<close> of a screen \<open>'s\<close>
  to a frame \<open>'f\<close>. \<open>history\<close> is \<open>None\<close> until \<open>reset\<close> has run.
\<close>

record ('g, 'f) AtariEnv =
  at_env :: 'g
  at_no_op_max :: int
  at_history :: "'f list option"
  at_lives :: int
  at_reset_on_death :: bool

definition AtariEnv_step ::
  "('g \<Rightarrow> int \<Rightarrow> py_error + ('g \<times> 's \<times> real \<times> bool \<times> (string \<times> int) list)) \<Rightarrow> ('s \<Rightarrow> 'f)
     \<Rightarrow> ('g, 'f) AtariEnv \<Rightarrow> int
     \<Rightarrow> py_error + (('g, 'f) AtariEnv \<times> 'f list \<times> real \<times> bool \<times> (string \<times> int) list)" where
  "AtariEnv_step gym_step frame_of env action =
     (case gym_step (at_env env) action of
        Inl e \<Rightarrow> Inl e
      | Inr (g', state, reward, done, info) \<Rightarrow>
          (case map_of info ''ale.lives'' of
             None \<Rightarrow> Inl KeyError
           | Some l \<Rightarrow>
               (let died = (l < at_lives env \<and> at_reset_on_death env);
                    done' = (if died then True else done);
                    lives' = (if died then l else at_lives env);
                    frame = frame_of state
                in case at_history env of
                     None \<Rightarrow> Inl AttributeError
                   | Some h \<Rightarrow>
                       if h = [] then Inl IndexError
                       else
                         (let h' = frame # butlast h in
                          Inr (env\<lparr>at_env := g', at_lives := lives', at_history := Some h'\<rparr>,
                               h', sgn reward, done', info)))))"

definition AtariEnv_step_tuple ::
  "('g \<Rightarrow> int \<Rightarrow> py_error + ('g \<times> 's \<times> real \<times> bool \<times> (string \<times> int) list)) \<Rightarrow> ('s \<Rightarrow> 'f)
     \<Rightarrow> ('g, 'f) AtariEnv \<Rightarrow> int \<Rightarrow> py_error + 'f pyval list" where
  "AtariEnv_step_tuple gym_step frame_of env action =
     (case AtariEnv_step gym_step frame_of env action of
        Inl e \<Rightarrow> Inl e
      | Inr (env', ob, r, d, info) \<Rightarrow> Inr [PyStack ob, PyFloat r, PyBool d, PyDict info])"

section \<open>PairsLeftBaseline\<close>

text \<open>
  The input \<open>X\<close> is an array of any rank: its shape and its entries, which \<open>predict\<close>
  never reads. \<open>predict\<close> unpacks the first two dimensions of the shape, which raises on
  a shape with fewer, and fills an array of shape \<open>(states, 1)\<close>.
\<close>

record 'x tensor =
  nd_shape :: "nat list"
  nd_data :: "'x list"

text \<open>
  The attribute \<open>gam\<close> is a Python number, a float by default. Its arithmetic is the
  interpreter's and rounds, so it is a parameter: \<open>'f\<close> is the type of the numbers, and
  an \<open>'f arith\<close> gives the test \<open>gam == 1\<close>, the power \<open>x ** n\<close> (which raises
  \<open>OverflowError\<close> when the result is out of range), \<open>1 - x\<close>, \<open>-x\<close> and the division
  \<open>x / y\<close> (which raises \<open>ZeroDivisionError\<close> on a zero divisor).
\<close>

record 'f arith =
  ar_is_one :: "'f \<Rightarrow> bool"
  ar_pow :: "'f \<Rightarrow> nat \<Rightarrow> py_error + 'f"
  ar_one_minus :: "'f \<Rightarrow> 'f"
  ar_neg :: "'f \<Rightarrow> 'f"
  ar_div :: "'f \<Rightarrow> 'f \<Rightarrow> py_error + 'f"

datatype 'f number = IntV int | FloatV 'f

text \<open>
  \<open>- (1 - self.gam ** pairs) / (1 - self.gam)\<close>: the power first, the negation before
  the division.
\<close>

definition fill_value_of :: "'f arith \<Rightarrow> 'f \<Rightarrow> nat \<Rightarrow> py_error + 'f" where
  "fill_value_of ar gam pairs =
     (case ar_pow ar gam pairs of
        Inl e \<Rightarrow> Inl e
      | Inr g \<Rightarrow> ar_div ar (ar_neg ar (ar_one_minus ar g)) (ar_one_minus ar gam))"

definition PairsLeftBaseline_predict ::
  "'f arith \<Rightarrow> 'f \<Rightarrow> 'x tensor \<Rightarrow> py_error + 'f number list list" where
  "PairsLeftBaseline_predict ar gam X =
     (case nd_shape X of
        states # pairs # rest \<Rightarrow>
          if ar_is_one ar gam then Inr (replicate states [IntV (- int pairs)])
          else
            (case fill_value_of ar gam pairs of
               Inl e \<Rightarrow> Inl e
             | Inr fill_value \<Rightarrow> Inr (replicate states [FloatV fill_value]))
      | _ \<Rightarrow> Inl ValueError)"

text \<open>
  An arithmetic for closed examples: the exact operations on the reals, with the two
  exceptions of the floats. A power of \<open>2 ^ 1024\<close> or more in absolute value is beyond
  every double, where Python raises \<open>OverflowError\<close>. Where the exact results are doubles
  themselves, as for \<open>gam = 1 / 2\<close>, the doubles compute the same values.
\<close>

definition exact_arith :: "real arith" where
  "exact_arith =
     \<lparr> ar_is_one = (\<lambda>x. x = 1),
       ar_pow = (\<lambda>x n. if \<bar>x ^ n\<bar> \<ge> 2 ^ 1024 then Inl OverflowError else Inr (x ^ n)),
       ar_one_minus = (\<lambda>x. 1 - x),
       ar_neg = (\<lambda>x. - x),
       ar_div = (\<lambda>x y. if y = 0 then Inl ZeroDivisionError else Inr (x / y)) \<rparr>"

section \<open>AgentBaseline\<close>

text \<open>
  Environment objects live in a store, the list of their states by address; a variable
  holds an address. \<open>predict\<close> rebinds \<open>env\<close> to the address \<open>env.copy()\<close> returns and
  steps the object there until \<open>done\<close>. The agent (\<open>act\<close>, with a state of its own), the
  discount \<open>gam\<close>, the environment's \<open>step\<close> on its own state and the first observation
  \<open>(env.G, env.P)\<close> or \<open>env._matrix()\<close> (\<open>observe\<close>) are parameters. A rollout that never
  reaches \<open>done\<close> has the value \<open>None\<close>.
\<close>

definition store_step ::
  "('s \<Rightarrow> 'a \<Rightarrow> py_error + ('s \<times> 'o \<times> real \<times> bool \<times> 'i)) \<Rightarrow> 's list \<Rightarrow> nat \<Rightarrow> 'a
     \<Rightarrow> py_error + ('s list \<times> 'o \<times> real \<times> bool \<times> 'i)" where
  "store_step env_step st r a =
     (case env_step (st ! r) a of
        Inl e \<Rightarrow> Inl e
      | Inr (s', ob, reward, done, info) \<Rightarrow> Inr (st[r := s'], ob, reward, done, info))"

text \<open>
  Modelled from the spec: \<open>copy()\<close> of the environment classes that have it
  (\<open>BuchbergerEnv\<close> and its wrappers, which are not among the sources): it "produces a
  deep, independent clone", a new object whose state is that of the original.
\<close>

definition env_copy :: "'s list \<Rightarrow> nat \<Rightarrow> 's list \<times> nat" where
  "env_copy st r = (st @ [st ! r], length st)"

partial_function (option) predict_loop ::
  "('s \<Rightarrow> 'a \<Rightarrow> py_error + ('s \<times> 'o \<times> real \<times> bool \<times> 'i)) \<Rightarrow> ('g \<Rightarrow> 'o \<Rightarrow> 'a \<times> 'g) \<Rightarrow> real
     \<Rightarrow> 's list \<Rightarrow> nat \<Rightarrow> 'g \<Rightarrow> 'o \<Rightarrow> real \<Rightarrow> real
     \<Rightarrow> (py_error + (real \<times> 's list \<times> 'g)) option" where
  "predict_loop env_step act gam st r ag state R discount =
     (case act ag state of
        (action, ag') \<Rightarrow>
          (case store_step env_step st r action of
             Inl e \<Rightarrow> Some (Inl e)
           | Inr (st', state', reward, done, info) \<Rightarrow>
               if done then Some (Inr (R + reward * discount, st', ag'))
               else predict_loop env_step act gam st' r ag' state'
                      (R + reward * discount) (discount * gam)))"

declare predict_loop.simps [code]

definition AgentBaseline_predict ::
  "('s \<Rightarrow> 'a \<Rightarrow> py_error + ('s \<times> 'o \<times> real \<times> bool \<times> 'i)) \<Rightarrow> ('s \<Rightarrow> 'o) \<Rightarrow> ('g \<Rightarrow> 'o \<Rightarrow> 'a \<times> 'g)
     \<Rightarrow> real \<Rightarrow> 's list \<Rightarrow> nat \<Rightarrow> 'g \<Rightarrow> (py_error + (real \<times> 's list \<times> 'g)) option" where
  "AgentBaseline_predict env_step observe act gam st env ag =
     (case env_copy st env of
        (st1, env1) \<Rightarrow> predict_loop env_step act gam st1 env1 ag (observe (st1 ! env1)) 0 1)"

section \<open>Arrays as objects\<close>

text \<open>
  For what the caller can do to an array it was handed, arrays are objects in a store,
  the list of their contents by address, and \<open>self.matrix\<close> is an address. An assignment
  to rows of \<open>self.matrix\<close> changes the contents at that address, \<open>np.copy\<close> and
  \<open>_random_matrix\<close> put a new array at the next free address.
\<close>

type_synonym store = "matrix list"

definition np_copy :: "'a list \<Rightarrow> nat \<Rightarrow> 'a list \<times> nat" where
  "np_copy h p = (h @ [h ! p], length h)"

definition np_new :: "'a list \<Rightarrow> 'a \<Rightarrow> 'a list \<times> nat" where
  "np_new h m = (h @ [m], length h)"

record RowEchelonObject =
  ro_N :: nat
  ro_M :: nat
  ro_F :: int
  ro_matrix :: nat
  ro_action_tuples :: "(string \<times> nat \<times> nat) list"

definition RowEchelonObject_step ::
  "RowEchelonObject \<Rightarrow> store \<Rightarrow> int \<Rightarrow> py_error + (store \<times> nat \<times> int \<times> bool)" where
  "RowEchelonObject_step obj h action =
     (case py_index (length (ro_action_tuples obj)) action of
        Inl e \<Rightarrow> Inl e
      | Inr k \<Rightarrow>
          (let act = ro_action_tuples obj ! k in
           case (if fst act = ''add'' then add_rows (ro_F obj) (h ! ro_matrix obj) (snd act)
                 else swap_rows (h ! ro_matrix obj) (snd act)) of
             Inl e \<Rightarrow> Inl e
           | Inr m' \<Rightarrow>
               (let h1 = h[ro_matrix obj := m'] in
                case np_copy h1 (ro_matrix obj) of
                  (h2, ob) \<Rightarrow>
                    (case row_echelon_loop (h2 ! ro_matrix obj) [0..<ro_N obj] (Some (- 1)) of
                       Inl e \<Rightarrow> Inl e
                     | Inr d \<Rightarrow> Inr (h2, ob, - 1, d)))))"

definition RowEchelonObject_random_matrix ::
  "RowEchelonObject \<Rightarrow> (nat \<Rightarrow> nat \<Rightarrow> int) \<Rightarrow> py_error + matrix" where
  "RowEchelonObject_random_matrix obj g =
     (if ro_F obj \<le> 0 then Inl ValueError
      else Inr (map (\<lambda>i. map (\<lambda>j. g i j) [0..<ro_M obj]) [0..<ro_N obj]))"

partial_function (option) RowEchelonObject_reset_loop ::
  "RowEchelonObject \<Rightarrow> store \<Rightarrow> (nat \<Rightarrow> nat \<Rightarrow> nat \<Rightarrow> int) \<Rightarrow> nat
     \<Rightarrow> (py_error + (RowEchelonObject \<times> store \<times> nat)) option" where
  "RowEchelonObject_reset_loop obj h rnd k =
     (case row_echelon_loop (h ! ro_matrix obj) [0..<ro_N obj] (Some (- 1)) of
        Inl e \<Rightarrow> Some (Inl e)
      | Inr b \<Rightarrow>
          if b then
            (case RowEchelonObject_random_matrix obj (rnd k) of
               Inl e \<Rightarrow> Some (Inl e)
             | Inr m \<Rightarrow>
                 (case np_new h m of
                    (h1, p) \<Rightarrow> RowEchelonObject_reset_loop (obj\<lparr>ro_matrix := p\<rparr>) h1 rnd (Suc k)))
          else Some (Inr (obj, h, k)))"

declare RowEchelonObject_reset_loop.simps [code]

definition RowEchelonObject_reset ::
  "RowEchelonObject \<Rightarrow> store \<Rightarrow> (nat \<Rightarrow> nat \<Rightarrow> nat \<Rightarrow> int) \<Rightarrow> nat
     \<Rightarrow> (py_error + (RowEchelonObject \<times> store \<times> nat \<times> nat)) option" where
  "RowEchelonObject_reset obj h rnd k =
     (case RowEchelonObject_random_matrix obj (rnd k) of
        Inl e \<Rightarrow> Some (Inl e)
      | Inr m \<Rightarrow>
          (case np_new h m of
             (h1, p) \<Rightarrow>
               (case RowEchelonObject_reset_loop (obj\<lparr>ro_matrix := p\<rparr>) h1 rnd (Suc k) of
                  None \<Rightarrow> None
                | Some (Inl e) \<Rightarrow> Some (Inl e)
                | Some (Inr (obj', h2, k')) \<Rightarrow>
                    (case np_copy h2 (ro_matrix obj') of
                       (h3, ob) \<Rightarrow> Some (Inr (obj', h3, ob, k'))))))"

record RowChoiceObject =
  co_N :: nat
  co_M :: nat
  co_density :: real
  co_matrix :: nat

definition RowChoiceObject_step ::
  "RowChoiceObject \<Rightarrow> store \<Rightarrow> int \<Rightarrow> py_error + (store \<times> nat \<times> int \<times> bool)" where
  "RowChoiceObject_step obj h action =
     (case row_at (h ! co_matrix obj) action of
        Inl e \<Rightarrow> Inl e
      | Inr r \<Rightarrow>
          (case lead_of r of
             None \<Rightarrow>
               (case np_copy h (co_matrix obj) of
                  (h2, ob) \<Rightarrow>
                    (case is_reduced (h2 ! co_matrix obj) (co_N obj) of
                       Inl e \<Rightarrow> Inl e
                     | Inr d \<Rightarrow> Inr (h2, ob, - 100, d)))
           | Some lead \<Rightarrow>
               (case pivot_loop action lead [0..<co_N obj] (h ! co_matrix obj) 0 of
                  Inl e \<Rightarrow> Inl e
                | Inr (m', moves) \<Rightarrow>
                    (let h1 = h[co_matrix obj := m'] in
                     case np_copy h1 (co_matrix obj) of
                       (h2, ob) \<Rightarrow>
                         (case is_reduced (h2 ! co_matrix obj) (co_N obj) of
                            Inl e \<Rightarrow> Inl e
                          | Inr d \<Rightarrow>
                              if moves = 0 then Inr (h2, ob, - 100, d)
                              else Inr (h2, ob, - int moves, d))))))"

definition RowChoiceObject_random_matrix :: "RowChoiceObject \<Rightarrow> (nat \<Rightarrow> nat \<Rightarrow> real) \<Rightarrow> matrix" where
  "RowChoiceObject_random_matrix obj u =
     threshold_matrix (co_N obj) (co_M obj) (co_density obj) u"

partial_function (option) RowChoiceObject_reset_loop ::
  "RowChoiceObject \<Rightarrow> store \<Rightarrow> (nat \<Rightarrow> nat \<Rightarrow> nat \<Rightarrow> real) \<Rightarrow> nat
     \<Rightarrow> (py_error + (RowChoiceObject \<times> store \<times> nat)) option" where
  "RowChoiceObject_reset_loop obj h rnd k =
     (case is_reduced (h ! co_matrix obj) (co_N obj) of
        Inl e \<Rightarrow> Some (Inl e)
      | Inr b \<Rightarrow>
          if b then
            (case np_new h (RowChoiceObject_random_matrix obj (rnd k)) of
               (h1, p) \<Rightarrow> RowChoiceObject_reset_loop (obj\<lparr>co_matrix := p\<rparr>) h1 rnd (Suc k))
          else Some (Inr (obj, h, k)))"

declare RowChoiceObject_reset_loop.simps [code]

definition RowChoiceObject_reset ::
  "RowChoiceObject \<Rightarrow> store \<Rightarrow> (nat \<Rightarrow> nat \<Rightarrow> nat \<Rightarrow> real) \<Rightarrow> nat
     \<Rightarrow> (py_error + (RowChoiceObject \<times> store \<times> nat \<times> nat)) option" where
  "RowChoiceObject_reset obj h rnd k =
     (case np_new h (RowChoiceObject_random_matrix obj (rnd k)) of
        (h1, p) \<Rightarrow>
          (case RowChoiceObject_reset_loop (obj\<lparr>co_matrix := p\<rparr>) h1 rnd (Suc k) of
             None \<Rightarrow> None
           | Some (Inl e) \<Rightarrow> Some (Inl e)
           | Some (Inr (obj', h2, k')) \<Rightarrow>
               (case np_copy h2 (co_matrix obj') of
                  (h3, ob) \<Rightarrow> Some (Inr (obj', h3, ob, k')))))"

text \<open>
  \<open>RowChoiceEnvironmentExtra\<close> holds two arrays, \<open>self.matrix\<close> and \<open>self.rows\<close>, and
  its store holds arrays of either rank. \<open>self.matrix[action, :]\<close> on a one-dimensional
  array raises.
\<close>

type_synonym nd_store = "ndarray list"

definition nd_matrix :: "ndarray \<Rightarrow> py_error + matrix" where
  "nd_matrix a = (case a of Arr1 xs \<Rightarrow> Inl IndexError | Arr2 m \<Rightarrow> Inr m)"

record RowChoiceExtraObject =
  xo_N :: nat
  xo_M :: nat
  xo_density :: real
  xo_matrix :: nat
  xo_rows :: nat

text \<open>
  \<open>step\<close> returns the store, the addresses of the two copies
  \<open>(np.copy(self.rows), np.copy(self.matrix))\<close>, the reward and \<open>done\<close>.
\<close>

definition RowChoiceExtraObject_step ::
  "RowChoiceExtraObject \<Rightarrow> nd_store \<Rightarrow> int
     \<Rightarrow> py_error + (nd_store \<times> (nat \<times> nat) \<times> int \<times> bool)" where
  "RowChoiceExtraObject_step obj h action =
     (case rows_get (h ! xo_rows obj) action of
        Inl e \<Rightarrow> Inl e
      | Inr is_new \<Rightarrow>
          (case rows_clear (h ! xo_rows obj) action of
             Inl e \<Rightarrow> Inl e
           | Inr rows' \<Rightarrow>
               (let h1 = h[xo_rows obj := rows'] in
                case nd_matrix (h1 ! xo_matrix obj) of
                  Inl e \<Rightarrow> Inl e
                | Inr m \<Rightarrow>
                    (case row_at m action of
                       Inl e \<Rightarrow> Inl e
                     | Inr r \<Rightarrow>
                         (case lead_of r of
                            None \<Rightarrow>
                              (case np_copy h1 (xo_rows obj) of
                                 (h2, ob_rows) \<Rightarrow>
                                   (case np_copy h2 (xo_matrix obj) of
                                      (h3, ob_matrix) \<Rightarrow>
                                        (case is_reduced m (xo_N obj) of
                                           Inl e \<Rightarrow> Inl e
                                         | Inr d \<Rightarrow>
                                             Inr (h3, (ob_rows, ob_matrix),
                                                  1000 * (is_new - 1), d))))
                          | Some lead \<Rightarrow>
                              (case pivot_loop action lead [0..<xo_N obj] m 0 of
                                 Inl e \<Rightarrow> Inl e
                               | Inr (m', moves) \<Rightarrow>
                                   (let h1' = h1[xo_matrix obj := Arr2 m'] in
                                    case np_copy h1' (xo_rows obj) of
                                      (h2, ob_rows) \<Rightarrow>
                                        (case np_copy h2 (xo_matrix obj) of
                                           (h3, ob_matrix) \<Rightarrow>
                                             (case is_reduced m' (xo_N obj) of
                                                Inl e \<Rightarrow> Inl e
                                              | Inr d \<Rightarrow>
                                                  if moves = 0 then
                                                    Inr (h3, (ob_rows, ob_matrix),
                                                         1000 * (is_new - 1), d)
                                                  else
                                                    Inr (h3, (ob_rows, ob_matrix),
                                                         - int moves, d))))))))))"

definition RowChoiceExtraObject_random_matrix ::
  "RowChoiceExtraObject \<Rightarrow> (nat \<Rightarrow> nat \<Rightarrow> real) \<Rightarrow> matrix" where
  "RowChoiceExtraObject_random_matrix obj u =
     threshold_matrix (xo_N obj) (xo_M obj) (xo_density obj) u"

partial_function (option) RowChoiceExtraObject_reset_loop ::
  "RowChoiceExtraObject \<Rightarrow> nd_store \<Rightarrow> (nat \<Rightarrow> nat \<Rightarrow> nat \<Rightarrow> real) \<Rightarrow> nat
     \<Rightarrow> (py_error + (RowChoiceExtraObject \<times> nd_store \<times> nat)) option" where
  "RowChoiceExtraObject_reset_loop obj h rnd k =
     (case nd_matrix (h ! xo_matrix obj) of
        Inl e \<Rightarrow> Some (Inl e)
      | Inr m \<Rightarrow>
          (case is_reduced m (xo_N obj) of
             Inl e \<Rightarrow> Some (Inl e)
           | Inr b \<Rightarrow>
               if b then
                 (case np_new h (Arr2 (RowChoiceExtraObject_random_matrix obj (rnd k))) of
                    (h1, p) \<Rightarrow>
                      RowChoiceExtraObject_reset_loop (obj\<lparr>xo_matrix := p\<rparr>) h1 rnd (Suc k))
               else Some (Inr (obj, h, k))))"

declare RowChoiceExtraObject_reset_loop.simps [code]

definition RowChoiceExtraObject_reset ::
  "RowChoiceExtraObject \<Rightarrow> nd_store \<Rightarrow> (nat \<Rightarrow> nat \<Rightarrow> nat \<Rightarrow> real) \<Rightarrow> nat
     \<Rightarrow> (py_error + (RowChoiceExtraObject \<times> nd_store \<times> (nat \<times> nat) \<times> nat)) option" where
  "RowChoiceExtraObject_reset obj h rnd k =
     (case np_new h (Arr2 (RowChoiceExtraObject_random_matrix obj (rnd k))) of
        (h1, p) \<Rightarrow>
          (case RowChoiceExtraObject_reset_loop (obj\<lparr>xo_matrix := p\<rparr>) h1 rnd (Suc k) of
             None \<Rightarrow> None
           | Some (Inl e) \<Rightarrow> Some (Inl e)
           | Some (Inr (obj', h2, k')) \<Rightarrow>
               (case np_new h2 (Arr2 (replicate (xo_N obj') [1])) of
                  (h3, pr) \<Rightarrow>
                    (case np_copy h3 pr of
                       (h4, ob_rows) \<Rightarrow>
                         (case np_copy h4 (xo_matrix obj') of
                            (h5, ob_matrix) \<Rightarrow>
                              Some (Inr (obj'\<lparr>xo_rows := pr\<rparr>, h5, (ob_rows, ob_matrix), k')))))))"

section \<open>Reachable states of the row-choice environments\<close>

definition binary :: "matrix \<Rightarrow> bool" where
  "binary m = (\<forall>r \<in> set m. \<forall>x \<in> set r. x = 0 \<or> x = 1)"

text \<open>
  The states an environment object can be in: the one the constructor builds, and the
  ones a returning \<open>reset\<close> or \<open>step\<close> leaves behind.
\<close>

inductive RowChoice_reachable :: "RowChoiceEnvironment \<Rightarrow> bool" where
  rc_init: "RowChoice_reachable (RowChoice_init shape density)"
| rc_reset: "RowChoice_reachable env \<Longrightarrow> RowChoice_reset env rnd k = Some (Inr (env', ob, k'))
     \<Longrightarrow> RowChoice_reachable env'"
| rc_step: "RowChoice_reachable env \<Longrightarrow> RowChoice_step env a = Inr (env', ob, r, d)
     \<Longrightarrow> RowChoice_reachable env'"

inductive RowChoiceExtra_reachable :: "RowChoiceEnvironmentExtra \<Rightarrow> bool" where
  rx_init: "RowChoiceExtra_reachable (RowChoiceExtra_init shape density)"
| rx_reset: "RowChoiceExtra_reachable env
     \<Longrightarrow> RowChoiceExtra_reset env rnd k = Some (Inr (env', ob, k'))
     \<Longrightarrow> RowChoiceExtra_reachable env'"
| rx_step: "RowChoiceExtra_reachable env \<Longrightarrow> RowChoiceExtra_step env a = Inr (env', ob, r, d)
     \<Longrightarrow> RowChoiceExtra_reachable env'"

text \<open>
  The fields of an environment object together with the contents of its array: the
  environment as a value.
\<close>

definition RowEchelonObject_load :: "RowEchelonObject \<Rightarrow> store \<Rightarrow> RowEchelonEnvironment" where
  "RowEchelonObject_load obj h =
     \<lparr> re_N = ro_N obj, re_M = ro_M obj, re_F = ro_F obj, re_matrix = h ! ro_matrix obj,
       re_action_tuples = ro_action_tuples obj \<rparr>"

definition RowChoiceObject_load :: "RowChoiceObject \<Rightarrow> store \<Rightarrow> RowChoiceEnvironment" where
  "RowChoiceObject_load obj h =
     \<lparr> rc_N = co_N obj, rc_M = co_M obj, rc_density = co_density obj,
       rc_matrix = h ! co_matrix obj \<rparr>"

text \<open>
  A row is settled when it is zero or no other row has a non-zero entry in the column of
  its lead: \<open>_is_reduced\<close> asks this of every row.
\<close>

definition settled :: "matrix \<Rightarrow> nat \<Rightarrow> nat \<Rightarrow> bool" where
  "settled m n r =
     (case lead_of (m ! r) of
        None \<Rightarrow> True
      | Some l \<Rightarrow> (\<forall>i < n. i \<noteq> r \<longrightarrow> m ! i ! l = 0))"

section \<open>Row echelon form and reduced matrices\<close>

text \<open>
  What the docstrings of \<open>_is_row_echelon\<close> ("true if the matrix is in row echelon
  form") and \<open>_is_reduced\<close> ("true if the current matrix is reduced"; "if this row has
  lead then everything in lead's column must be 0") say, stated on the matrix and not as
  a loop. The lead of a row is at the index of its first non-zero entry. A matrix is in
  row echelon form when below a zero row there are only zero rows and the lead of a row
  is strictly to the right of the leads of the rows above it; it is reduced when the
  column of every lead is zero in all other rows.
\<close>

definition zero_row :: "int list \<Rightarrow> bool" where
  "zero_row r = (\<forall>j < length r. r ! j = 0)"

definition leading_index :: "int list \<Rightarrow> nat \<Rightarrow> bool" where
  "leading_index r l = (l < length r \<and> r ! l \<noteq> 0 \<and> (\<forall>j < l. r ! j = 0))"

definition row_echelon_form :: "matrix \<Rightarrow> bool" where
  "row_echelon_form m =
     ((\<forall>i j. i < j \<and> j < length m \<and> zero_row (m ! i) \<longrightarrow> zero_row (m ! j))
      \<and> (\<forall>i j l l'. i < j \<and> j < length m \<and> leading_index (m ! i) l \<and> leading_index (m ! j) l'
            \<longrightarrow> l < l'))"

definition reduced_form :: "matrix \<Rightarrow> bool" where
  "reduced_form m =
     (\<forall>r < length m. \<forall>l. leading_index (m ! r) l \<longrightarrow>
        (\<forall>i < length m. i \<noteq> r \<longrightarrow> m ! i ! l = 0))"

text \<open>
  The test of one iteration of \<open>_is_row_echelon\<close>: a row with a lead needs a lead in
  the row before it, further to the left.
\<close>

definition lead_after :: "int option \<Rightarrow> nat option \<Rightarrow> bool" where
  "lead_after prev_lead next_lead =
     (case next_lead of
        None \<Rightarrow> True
      | Some l \<Rightarrow> (case prev_lead of None \<Rightarrow> False | Some q \<Rightarrow> q < int l))"

section \<open>Indexing and the loops over rows\<close>

lemma py_index_nat: "k < n \<Longrightarrow> py_index n (int k) = Inr k"
  by (simp add: py_index_def)

lemma py_index_out: "i \<ge> int n \<or> i < - int n \<Longrightarrow> py_index n i = Inl IndexError"
  by (auto simp: py_index_def)

lemma py_index_bound: "py_index n i = Inr k \<Longrightarrow> k < n"
  by (auto simp: py_index_def split: if_splits)

lemma row_at_nat: "k < length m \<Longrightarrow> row_at m (int k) = Inr (m ! k)"
  by (simp add: row_at_def py_index_nat)

lemma row_at_mem: "row_at m i = Inr r \<Longrightarrow> r \<in> set m"
  by (auto simp: row_at_def split: sum.splits dest: py_index_bound)

lemma entry_at_nat:
  "i < length m \<Longrightarrow> j < length (m ! i) \<Longrightarrow> entry_at m (int i) j = Inr (m ! i ! j)"
  by (simp add: entry_at_def row_at_nat)

lemma lead_from_bound:
  "lead_from k r = Some l \<Longrightarrow> k \<le> l \<and> l < k + length r"
  by (induction r arbitrary: k) (fastforce split: if_splits)+

lemma lead_of_bound: "lead_of r = Some l \<Longrightarrow> l < length r"
  using lead_from_bound[of 0 r l] by (simp add: lead_of_def)

lemma row_echelon_loop_total:
  "\<forall>k \<in> set ks. k < length m \<Longrightarrow> \<exists>b. row_echelon_loop m ks p = Inr b"
  by (induction ks arbitrary: p) (auto simp: row_at_nat split: option.splits)

lemma column_clear_eval:
  "\<forall>i \<in> set ks. i < length m \<and> l < length (m ! i) \<Longrightarrow>
     column_clear m row l ks = Inr (\<forall>i \<in> set ks. i \<noteq> row \<longrightarrow> m ! i ! l = 0)"
  by (induction ks) (auto simp: entry_at_nat)

lemma reduced_loop_total:
  assumes "has_shape n k m"
  shows "\<forall>i \<in> set ks. i < n \<Longrightarrow> \<exists>b. reduced_loop m n ks = Inr b"
proof (induction ks)
  case Nil
  then show ?case by auto
next
  case (Cons row rest)
  then have row: "row < length m" and IH: "\<exists>b. reduced_loop m n rest = Inr b"
    using assms by (auto simp: has_shape_def)
  show ?case
  proof (cases "lead_of (m ! row)")
    case None
    with row IH show ?thesis by (simp add: row_at_nat)
  next
    case (Some l)
    then have "l < k" using lead_of_bound[of "m ! row" l] assms row by (auto simp: has_shape_def)
    then have "\<forall>i \<in> set [0..<n]. i < length m \<and> l < length (m ! i)"
      using assms by (auto simp: has_shape_def)
    from column_clear_eval[OF this] Some row IH show ?thesis
      by (auto simp: row_at_nat)
  qed
qed

lemma is_reduced_total: "has_shape n k m \<Longrightarrow> \<exists>b. is_reduced m n = Inr b"
  unfolding is_reduced_def by (rule reduced_loop_total) auto

lemma pivot_loop_noop:
  "\<forall>i \<in> set ks. i < length m \<and> l < length (m ! i) \<and> (int i \<noteq> a \<longrightarrow> m ! i ! l = 0) \<Longrightarrow>
     pivot_loop a l ks m moves = Inr (m, moves)"
  by (induction ks) (auto simp: entry_at_nat)

section \<open>Single steps and runs\<close>

lemma action_tuples_bound:
  "(s, i, j) \<in> set (action_tuples_of n) \<Longrightarrow>
     i < n \<and> j < n \<and> i \<noteq> j \<and> (s = ''swap'' \<or> s = ''add'')"
  by (auto simp: action_tuples_of_def)

lemma RowEchelon_step_reward:
  "RowEchelon_step env a = Inr (env', ob, r, d) \<Longrightarrow> r = - 1"
  by (auto simp: RowEchelon_step_def Let_def split: sum.splits if_splits)

lemma RowEchelon_step_done:
  "RowEchelon_step env a = Inr (env', ob, r, d) \<Longrightarrow>
     is_row_echelon env' = Inr d \<and> ob = re_matrix env'"
  by (auto simp: RowEchelon_step_def Let_def split: sum.splits if_splits)

lemma RowChoice_step_done:
  "RowChoice_step env a = Inr (env', ob, r, d) \<Longrightarrow>
     is_reduced (rc_matrix env') (rc_N env') = Inr d \<and> ob = rc_matrix env'"
  by (auto simp: RowChoice_step_def Let_def split: sum.splits if_splits option.splits)

lemma RowEchelon_step_total:
  assumes "re_wf env" "0 \<le> a" "a < int (re_action_size env)"
  shows "\<exists>env' ob d. RowEchelon_step env a = Inr (env', ob, - 1, d)"
proof -
  let ?k = "nat a"
  have k: "?k < length (re_action_tuples env)"
    using assms by (simp add: re_action_size_def)
  obtain s i j where act: "re_action_tuples env ! ?k = (s, i, j)"
    by (cases "re_action_tuples env ! ?k") auto
  have "(s, i, j) \<in> set (action_tuples_of (re_N env))"
    using k act assms(1) by (metis nth_mem re_wf_def)
  then have b: "i < re_N env" "j < re_N env"
    by (auto dest: action_tuples_bound)
  have len: "length (re_matrix env) = re_N env"
    using assms(1) by (simp add: re_wf_def has_shape_def)
  obtain m' where m': "(if s = ''add'' then add_rows (re_F env) (re_matrix env) (i, j)
                 else swap_rows (re_matrix env) (i, j)) = Inr m'" and l': "length m' = re_N env"
  proof (cases "s = ''add''")
    case True
    with b len that show ?thesis by (simp add: add_rows_def row_at_nat)
  next
    case False
    with b len that show ?thesis by (simp add: swap_rows_def row_at_nat)
  qed
  obtain d where "row_echelon_loop m' [0..<re_N env] (Some (- 1)) = Inr d"
    using row_echelon_loop_total[of "[0..<re_N env]" m' "Some (- 1)"] l' by auto
  then show ?thesis using k act m' assms(2,3)
    by (cases "s = ''add''")
       (simp_all add: RowEchelon_step_def py_index_def re_action_size_def is_row_echelon_def Let_def)
qed

lemma RowEchelon_run_rewards:
  "RowEchelon_run env as = Inr (env', rs) \<Longrightarrow>
     length rs = length as \<and> (\<forall>x \<in> set rs. fst x = - 1)"
proof (induction as arbitrary: env rs)
  case Nil
  then show ?case by simp
next
  case (Cons a as)
  from Cons.prems obtain e1 ob r d rs' where
    st: "RowEchelon_step env a = Inr (e1, ob, r, d)" and
    rn: "RowEchelon_run e1 as = Inr (env', rs')" and
    rs: "rs = (r, d) # rs'"
    by (auto split: sum.splits prod.splits)
  from st have "r = - 1" by (rule RowEchelon_step_reward)
  with Cons.IH[OF rn] rs show ?case by simp
qed

lemma sum_list_all_minus_one:
  "\<forall>x \<in> set rs. fst x = (- 1::int) \<Longrightarrow> sum_list (map fst rs) = - int (length rs)"
  by (induction rs) auto

lemma RowEchelon_run_append:
  "RowEchelon_run env (as @ bs) =
     (case RowEchelon_run env as of
        Inl e \<Rightarrow> Inl e
      | Inr (e1, rs1) \<Rightarrow>
          (case RowEchelon_run e1 bs of
             Inl e \<Rightarrow> Inl e
           | Inr (e2, rs2) \<Rightarrow> Inr (e2, rs1 @ rs2)))"
  by (induction as arbitrary: env) (auto split: sum.splits prod.splits)

lemma RowChoice_run_append:
  "RowChoice_run env (as @ bs) =
     (case RowChoice_run env as of
        Inl e \<Rightarrow> Inl e
      | Inr (e1, rs1) \<Rightarrow>
          (case RowChoice_run e1 bs of
             Inl e \<Rightarrow> Inl e
           | Inr (e2, rs2) \<Rightarrow> Inr (e2, rs1 @ rs2)))"
  by (induction as arbitrary: env) (auto split: sum.splits prod.splits)

lemma RowEchelon_run_last_done:
  assumes "RowEchelon_run env (as @ [a]) = Inr (env', rs)"
  shows "is_row_echelon env' = Inr (snd (last rs))"
proof -
  from assms obtain e1 rs1 ob r d where
    "RowEchelon_step e1 a = Inr (env', ob, r, d)" and "rs = rs1 @ [(r, d)]"
    by (auto simp: RowEchelon_run_append split: sum.splits prod.splits)
  then show ?thesis by (auto dest: RowEchelon_step_done)
qed

lemma RowChoice_run_last_done:
  assumes "RowChoice_run env (as @ [a]) = Inr (env', rs)"
  shows "is_reduced (rc_matrix env') (rc_N env') = Inr (snd (last rs))"
proof -
  from assms obtain e1 rs1 ob r d where
    "RowChoice_step e1 a = Inr (env', ob, r, d)" and "rs = rs1 @ [(r, d)]"
    by (auto simp: RowChoice_run_append split: sum.splits prod.splits)
  then show ?thesis by (auto dest: RowChoice_step_done)
qed

section \<open>Rewards of RowEchelonEnvironment\<close>

text \<open>
  Claim C4. In \<open>RowEchelonEnvironment\<close> every call of \<open>step\<close> that returns has the reward
  \<open>-1\<close>, whatever the action and the state: when the constructor's invariant holds,
  every action index in \<open>[0, action_size)\<close> returns with reward \<open>-1\<close>, and over any
  sequence of actions that are all stepped the rewards are all \<open>-1\<close> and add up to minus
  the number of steps taken.
\<close>

theorem RowEchelon_reward_accounting:
  "(re_wf env \<and> 0 \<le> a \<and> a < int (re_action_size env) \<longrightarrow>
      (\<exists>env' ob d. RowEchelon_step env a = Inr (env', ob, - 1, d)))
   \<and> (RowEchelon_run env as = Inr (env'', rs) \<longrightarrow>
      length rs = length as \<and> (\<forall>x \<in> set rs. fst x = - 1)
      \<and> sum_list (map fst rs) = - int (length as))"
proof (intro conjI impI)
  assume "re_wf env \<and> 0 \<le> a \<and> a < int (re_action_size env)"
  then show "\<exists>env' ob d. RowEchelon_step env a = Inr (env', ob, - 1, d)"
    using RowEchelon_step_total by blast
next
  assume run: "RowEchelon_run env as = Inr (env'', rs)"
  from RowEchelon_run_rewards[OF run]
  show "length rs = length as" and "\<forall>x \<in> set rs. fst x = - 1"
    by simp_all
  then show "sum_list (map fst rs) = - int (length as)"
    using sum_list_all_minus_one[of rs] by simp
qed

theorem RowEchelon_reward_accounting_witness:
  "re_wf ((RowEchelon_init (2, 2) 2)\<lparr>re_matrix := [[0, 1], [1, 0]]\<rparr>)
   \<and> (0::int) \<le> 2
   \<and> (2::int) < int (re_action_size ((RowEchelon_init (2, 2) 2)\<lparr>re_matrix := [[0, 1], [1, 0]]\<rparr>))
   \<and> RowEchelon_step ((RowEchelon_init (2, 2) 2)\<lparr>re_matrix := [[0, 1], [1, 0]]\<rparr>) 2
       = Inr ((RowEchelon_init (2, 2) 2)\<lparr>re_matrix := [[1, 1], [1, 0]]\<rparr>, [[1, 1], [1, 0]], - 1, False)
   \<and> RowEchelon_run ((RowEchelon_init (2, 2) 2)\<lparr>re_matrix := [[0, 1], [1, 0]]\<rparr>) [2, 0, 1]
       = Inr ((RowEchelon_init (2, 2) 2)\<lparr>re_matrix := [[1, 0], [0, 1]]\<rparr>,
              [(- 1, False), (- 1, False), (- 1, True)])
   \<and> sum_list (map fst [(- 1 :: int, False), (- 1, False), (- 1, True)]) = - int (length [2, 0, 1 :: int])"
proof -
  let ?e = "(RowEchelon_init (2, 2) 2)\<lparr>re_matrix := [[0, 1], [1, 0]]\<rparr>"
  have wf: "re_wf ?e"
    by (simp add: re_wf_def has_shape_def RowEchelon_init_def)
  have sz: "(2::int) < int (re_action_size ?e)"
    by code_simp
  have st: "RowEchelon_step ?e 2
       = Inr ((RowEchelon_init (2, 2) 2)\<lparr>re_matrix := [[1, 1], [1, 0]]\<rparr>, [[1, 1], [1, 0]], - 1, False)"
    by code_simp
  have run: "RowEchelon_run ?e [2, 0, 1]
       = Inr ((RowEchelon_init (2, 2) 2)\<lparr>re_matrix := [[1, 0], [0, 1]]\<rparr>,
              [(- 1, False), (- 1, False), (- 1, True)])"
    by code_simp
  from RowEchelon_reward_accounting[of ?e 2 "[2, 0, 1]"
      "(RowEchelon_init (2, 2) 2)\<lparr>re_matrix := [[1, 0], [0, 1]]\<rparr>"
      "[(- 1, False), (- 1, False), (- 1, True)]"] wf sz st run
  show ?thesis by simp
qed

section \<open>Actions that change nothing\<close>

lemma RowChoice_step_out_of_range:
  "a \<ge> int (length (rc_matrix env)) \<or> a < - int (length (rc_matrix env)) \<Longrightarrow>
     RowChoice_step env a = Inl IndexError"
  by (simp add: RowChoice_step_def row_at_def py_index_out)

lemma RowChoice_step_noop:
  assumes sh: "has_shape (rc_N env) (rc_M env) (rc_matrix env)"
    and a: "0 \<le> a" "a < int (rc_N env)"
    and noop: "lead_of (rc_matrix env ! nat a) = None \<or>
               (\<exists>l. lead_of (rc_matrix env ! nat a) = Some l \<and>
                    (\<forall>i < rc_N env. i \<noteq> nat a \<longrightarrow> rc_matrix env ! i ! l = 0))"
  shows "\<exists>d. is_reduced (rc_matrix env) (rc_N env) = Inr d \<and>
             RowChoice_step env a = Inr (env, rc_matrix env, - 100, d)"
proof -
  let ?m = "rc_matrix env"
  obtain d where d: "is_reduced ?m (rc_N env) = Inr d"
    using is_reduced_total[OF sh] by blast
  have len: "length ?m = rc_N env" using sh by (simp add: has_shape_def)
  have ra: "row_at ?m a = Inr (?m ! nat a)"
    using a len by (simp add: row_at_def py_index_def)
  show ?thesis
  proof (cases "lead_of (?m ! nat a)")
    case None
    with ra d show ?thesis by (simp add: RowChoice_step_def)
  next
    case (Some l)
    with noop have clear: "\<forall>i < rc_N env. i \<noteq> nat a \<longrightarrow> ?m ! i ! l = 0" by simp
    have "l < rc_M env"
      using lead_of_bound[OF Some] sh a len by (auto simp: has_shape_def)
    then have "\<forall>i \<in> set [0..<rc_N env]. i < length ?m \<and> l < length (?m ! i) \<and>
                 (int i \<noteq> a \<longrightarrow> ?m ! i ! l = 0)"
      using sh clear a by (auto simp: has_shape_def)
    from pivot_loop_noop[OF this, of 0] ra Some d show ?thesis
      by (simp add: RowChoice_step_def)
  qed
qed

lemma RowChoice_run_fixed:
  "RowChoice_step env a = Inr (env, ob, r, d) \<Longrightarrow>
     RowChoice_run env (replicate n a) = Inr (env, replicate n (r, d))"
  by (induction n) simp_all

lemma swap_rows_twice:
  assumes "i < length m" "j < length m"
  shows "\<exists>m'. swap_rows m (i, j) = Inr m' \<and> length m' = length m \<and> swap_rows m' (i, j) = Inr m"
proof -
  let ?m' = "m[i := m ! j, j := m ! i]"
  have 1: "swap_rows m (i, j) = Inr ?m'"
    using assms by (simp add: swap_rows_def row_at_nat)
  have "?m'[i := ?m' ! j, j := ?m' ! i] = m"
    using assms by (auto simp: list_eq_iff_nth_eq nth_list_update)
  then have 2: "swap_rows ?m' (i, j) = Inr m"
    using assms by (simp add: swap_rows_def row_at_nat)
  from 1 2 show ?thesis by simp
qed

lemma RowEchelon_swap_back:
  assumes wf: "re_wf env" and a: "0 \<le> a" "a < int (re_action_size env)"
    and sw: "fst (re_action_tuples env ! nat a) \<noteq> ''add''"
    and ne: "is_row_echelon env = Inr d0"
    and st: "RowEchelon_step env a = Inr (env1, ob, r, d)"
  shows "RowEchelon_step env1 a = Inr (env, re_matrix env, - 1, d0)"
proof -
  let ?k = "nat a"
  have k: "?k < length (re_action_tuples env)"
    using a by (simp add: re_action_size_def)
  obtain s i j where act: "re_action_tuples env ! ?k = (s, i, j)"
    by (cases "re_action_tuples env ! ?k") auto
  have "(s, i, j) \<in> set (action_tuples_of (re_N env))"
    using k act wf by (metis nth_mem re_wf_def)
  then have b: "i < length (re_matrix env)" "j < length (re_matrix env)"
    using wf by (auto dest: action_tuples_bound simp: re_wf_def has_shape_def)
  from swap_rows_twice[OF b] obtain m' where
    m': "swap_rows (re_matrix env) (i, j) = Inr m'" "swap_rows m' (i, j) = Inr (re_matrix env)"
    by blast
  have pi: "py_index (length (re_action_tuples env)) a = Inr ?k"
    using a k by (simp add: py_index_def)
  have e1: "env1 = env\<lparr>re_matrix := m'\<rparr>"
    using st sw act m' pi
    by (auto simp: RowEchelon_step_def Let_def split: sum.splits)
  have "env1\<lparr>re_matrix := re_matrix env\<rparr> = env" by (simp add: e1)
  then show ?thesis
    using sw act m' pi ne by (simp add: RowEchelon_step_def Let_def e1)
qed

lemma RowEchelon_run_two_cycle:
  assumes s1: "RowEchelon_step env a = Inr (env1, ob1, r1, d)"
    and s2: "RowEchelon_step env1 a = Inr (env, ob2, r2, d)"
  shows "RowEchelon_run env (replicate n a)
            = Inr (if even n then env else env1, replicate n (- 1, d))
       \<and> RowEchelon_run env1 (replicate n a)
            = Inr (if even n then env1 else env, replicate n (- 1, d))"
proof (induction n)
  case 0
  show ?case by simp
next
  case (Suc n)
  have "r1 = - 1" "r2 = - 1"
    using s1 s2 by (auto dest: RowEchelon_step_reward)
  with Suc s1 s2 show ?case by simp
qed

section \<open>Action indices outside the matrix\<close>

text \<open>
  Claim C2 as stated fails. With \<open>N = 2\<close> the index \<open>2\<close> is outside \<open>[0, N)\<close> and
  \<open>step(2)\<close> raises \<open>IndexError\<close> at \<open>self.matrix[action, :]\<close>: no reward is
  returned. The index \<open>-1\<close> is outside \<open>[0, N)\<close> too; NumPy reads the last row for it,
  and \<open>step(-1)\<close> changes the matrix and returns the reward \<open>-2\<close>.
\<close>

theorem out_of_range_action_counterexample:
  "RowChoice_step \<lparr>rc_N = 2, rc_M = 2, rc_density = 1 / 2, rc_matrix = [[1, 1], [0, 1]]\<rparr> 2
     = Inl IndexError
   \<and> RowChoice_step \<lparr>rc_N = 2, rc_M = 2, rc_density = 1 / 2, rc_matrix = [[1, 1], [0, 1]]\<rparr> (- 1)
     = Inr (\<lparr>rc_N = 2, rc_M = 2, rc_density = 1 / 2, rc_matrix = [[1, 0], [0, 0]]\<rparr>,
            [[1, 0], [0, 0]], - 2, True)"
  by code_simp

text \<open>
  Claim C2, amended. \<open>RowChoiceEnvironment.step\<close> does not check the action index. On
  a matrix of \<open>N\<close> rows an index \<open>action \<ge> N\<close> or \<open>action < -N\<close> raises \<open>IndexError\<close>.
  The fixed reward \<open>-100\<close> with the state unchanged is what an index inside \<open>[0, N)\<close>
  gets when its row is zero or when no other row has a non-zero entry in the column of
  its lead; \<open>done\<close> is then \<open>_is_reduced\<close> of the unchanged matrix.
\<close>

theorem RowChoice_step_raises_or_penalises:
  "has_shape (rc_N env) (rc_M env) (rc_matrix env) \<Longrightarrow>
     ((a \<ge> int (rc_N env) \<or> a < - int (rc_N env)) \<longrightarrow> RowChoice_step env a = Inl IndexError)
     \<and> (0 \<le> a \<and> a < int (rc_N env)
          \<and> (lead_of (rc_matrix env ! nat a) = None \<or>
               (\<exists>l. lead_of (rc_matrix env ! nat a) = Some l \<and>
                    (\<forall>i < rc_N env. i \<noteq> nat a \<longrightarrow> rc_matrix env ! i ! l = 0)))
        \<longrightarrow> (\<exists>d. is_reduced (rc_matrix env) (rc_N env) = Inr d
                 \<and> RowChoice_step env a = Inr (env, rc_matrix env, - 100, d)))"
proof (intro conjI impI)
  assume sh: "has_shape (rc_N env) (rc_M env) (rc_matrix env)"
  assume "a \<ge> int (rc_N env) \<or> a < - int (rc_N env)"
  moreover from sh have "length (rc_matrix env) = rc_N env"
    by (simp add: has_shape_def)
  ultimately show "RowChoice_step env a = Inl IndexError"
    using RowChoice_step_out_of_range[of env a] by simp
next
  assume sh: "has_shape (rc_N env) (rc_M env) (rc_matrix env)"
  assume "0 \<le> a \<and> a < int (rc_N env)
          \<and> (lead_of (rc_matrix env ! nat a) = None \<or>
               (\<exists>l. lead_of (rc_matrix env ! nat a) = Some l \<and>
                    (\<forall>i < rc_N env. i \<noteq> nat a \<longrightarrow> rc_matrix env ! i ! l = 0)))"
  with sh show "\<exists>d. is_reduced (rc_matrix env) (rc_N env) = Inr d
                 \<and> RowChoice_step env a = Inr (env, rc_matrix env, - 100, d)"
    using RowChoice_step_noop[of env a] by blast
qed

theorem RowChoice_step_raises_or_penalises_witness:
  "has_shape 2 2 [[1, 1], [0, 0]]
   \<and> RowChoice_step \<lparr>rc_N = 2, rc_M = 2, rc_density = 1 / 2, rc_matrix = [[1, 1], [0, 0]]\<rparr> 2
       = Inl IndexError
   \<and> RowChoice_step \<lparr>rc_N = 2, rc_M = 2, rc_density = 1 / 2, rc_matrix = [[1, 1], [0, 0]]\<rparr> (- 3)
       = Inl IndexError
   \<and> lead_of ([[1, 1], [0, 0]] ! nat 1) = None
   \<and> (\<exists>d. is_reduced [[1, 1], [0, 0]] 2 = Inr d
          \<and> RowChoice_step \<lparr>rc_N = 2, rc_M = 2, rc_density = 1 / 2, rc_matrix = [[1, 1], [0, 0]]\<rparr> 1
              = Inr (\<lparr>rc_N = 2, rc_M = 2, rc_density = 1 / 2, rc_matrix = [[1, 1], [0, 0]]\<rparr>,
                     [[1, 1], [0, 0]], - 100, d))"
proof -
  let ?c = "\<lparr>rc_N = 2, rc_M = 2, rc_density = 1 / 2, rc_matrix = [[1, 1], [0, 0]]\<rparr>"
  have sh: "has_shape (rc_N ?c) (rc_M ?c) (rc_matrix ?c)"
    by (simp add: has_shape_def)
  have ld: "lead_of ([[1, 1], [0, 0]] ! nat 1) = None"
    by (simp add: lead_of_def)
  from RowChoice_step_raises_or_penalises[OF sh, of 2]
       RowChoice_step_raises_or_penalises[OF sh, of "- 3"]
       RowChoice_step_raises_or_penalises[OF sh, of 1] sh ld
  show ?thesis by simp
qed

section \<open>The shape of the returned tuple\<close>

text \<open>
  Claim C3 as stated fails. \<open>step\<close> of \<open>RowEchelonEnvironment\<close> and of
  \<open>RowChoiceEnvironment\<close> returns the three components observation, reward and
  \<open>done\<close>: there is no fourth component and no info dict.
\<close>

theorem step_tuple_arity_counterexample:
  "RowEchelon_step_tuple ((RowEchelon_init (2, 2) 2)\<lparr>re_matrix := [[0, 1], [1, 0]]\<rparr>) 0
     = (Inr [PyArray [[1, 0], [0, 1]], PyInt (- 1), PyBool True] :: py_error + nat pyval list)
   \<and> RowChoice_step_tuple \<lparr>rc_N = 2, rc_M = 2, rc_density = 1 / 2, rc_matrix = [[1, 1], [0, 1]]\<rparr> 1
     = (Inr [PyArray [[1, 0], [0, 1]], PyInt (- 1), PyBool True] :: py_error + nat pyval list)"
  by code_simp

text \<open>
  Claim C3, amended. Every returning \<open>step\<close> of \<open>RowEchelonEnvironment\<close> and of
  \<open>RowChoiceEnvironment\<close> returns exactly three components, the observation array, the
  integer reward and the \<open>done\<close> flag, with no info dict; every returning
  \<open>AtariEnv.step\<close> returns exactly four, the stack of frames, the sign of the reward,
  the \<open>done\<close> flag and, fourth, the info dict the wrapped environment returned.
\<close>

theorem step_tuple_components:
  "(RowEchelon_step_tuple env a = Inr t \<longrightarrow>
      length t = 3 \<and>
      (\<exists>env' ob r d. RowEchelon_step env a = Inr (env', ob, r, d)
         \<and> t = [PyArray ob, PyInt r, PyBool d]))
   \<and> (RowChoice_step_tuple cenv b = Inr t' \<longrightarrow>
      length t' = 3 \<and>
      (\<exists>env' ob r d. RowChoice_step cenv b = Inr (env', ob, r, d)
         \<and> t' = [PyArray ob, PyInt r, PyBool d]))
   \<and> (AtariEnv_step_tuple gym_step frame_of aenv c = Inr t'' \<longrightarrow>
      length t'' = 4 \<and>
      (\<exists>g' state reward done info ob d.
          gym_step (at_env aenv) c = Inr (g', state, reward, done, info)
          \<and> t'' = [PyStack ob, PyFloat (sgn reward), PyBool d, PyDict info]))"
proof (intro conjI impI)
  assume "RowEchelon_step_tuple env a = Inr t"
  then show "\<exists>env' ob r d. RowEchelon_step env a = Inr (env', ob, r, d)
         \<and> t = [PyArray ob, PyInt r, PyBool d]"
    by (auto simp: RowEchelon_step_tuple_def split: sum.splits)
  then show "length t = 3" by auto
next
  assume "RowChoice_step_tuple cenv b = Inr t'"
  then show "\<exists>env' ob r d. RowChoice_step cenv b = Inr (env', ob, r, d)
         \<and> t' = [PyArray ob, PyInt r, PyBool d]"
    by (auto simp: RowChoice_step_tuple_def split: sum.splits)
  then show "length t' = 3" by auto
next
  assume "AtariEnv_step_tuple gym_step frame_of aenv c = Inr t''"
  then show "\<exists>g' state reward done info ob d.
          gym_step (at_env aenv) c = Inr (g', state, reward, done, info)
          \<and> t'' = [PyStack ob, PyFloat (sgn reward), PyBool d, PyDict info]"
    by (auto simp: AtariEnv_step_tuple_def AtariEnv_step_def Let_def
          split: sum.splits prod.splits option.splits if_splits)
  then show "length t'' = 4" by auto
qed

theorem step_tuple_components_witness:
  "RowEchelon_step_tuple ((RowEchelon_init (2, 2) 2)\<lparr>re_matrix := [[0, 1], [1, 0]]\<rparr>) 0
     = (Inr [PyArray [[1, 0], [0, 1]], PyInt (- 1), PyBool True] :: py_error + nat pyval list)
   \<and> RowChoice_step_tuple \<lparr>rc_N = 2, rc_M = 2, rc_density = 1 / 2, rc_matrix = [[1, 1], [0, 1]]\<rparr> 1
     = (Inr [PyArray [[1, 0], [0, 1]], PyInt (- 1), PyBool True] :: py_error + nat pyval list)
   \<and> AtariEnv_step_tuple
        (\<lambda>g a. Inr (g + 1, g, 5 / 2, False, [(''ale.lives'', 2)])) (\<lambda>s. s)
        \<lparr>at_env = (7::nat), at_no_op_max = 30, at_history = Some [1, 2, 3, 4], at_lives = 3,
          at_reset_on_death = True\<rparr> 0
     = Inr [PyStack [7, 1, 2, 3], PyFloat 1, PyBool True, PyDict [(''ale.lives'', 2)]]
   \<and> length [PyArray [[1, 0], [0, 1]], PyInt (- 1), PyBool True :: nat pyval] = 3
   \<and> length [PyStack [7, 1, 2, 3], PyFloat 1, PyBool True, PyDict [(''ale.lives'', 2)] :: nat pyval] = 4"
proof -
  have a: "RowEchelon_step_tuple ((RowEchelon_init (2, 2) 2)\<lparr>re_matrix := [[0, 1], [1, 0]]\<rparr>) 0
     = (Inr [PyArray [[1, 0], [0, 1]], PyInt (- 1), PyBool True] :: py_error + nat pyval list)"
    by code_simp
  have b: "RowChoice_step_tuple \<lparr>rc_N = 2, rc_M = 2, rc_density = 1 / 2, rc_matrix = [[1, 1], [0, 1]]\<rparr> 1
     = (Inr [PyArray [[1, 0], [0, 1]], PyInt (- 1), PyBool True] :: py_error + nat pyval list)"
    by code_simp
  have c: "AtariEnv_step_tuple
        (\<lambda>g a. Inr (g + 1, g, 5 / 2, False, [(''ale.lives'', 2)])) (\<lambda>s. s)
        \<lparr>at_env = (7::nat), at_no_op_max = 30, at_history = Some [1, 2, 3, 4], at_lives = 3,
          at_reset_on_death = True\<rparr> 0
     = Inr [PyStack [7, 1, 2, 3], PyFloat 1, PyBool True, PyDict [(''ale.lives'', 2)]]"
    by (simp add: AtariEnv_step_tuple_def AtariEnv_step_def Let_def)
  from step_tuple_components[of
      "(RowEchelon_init (2, 2) 2)\<lparr>re_matrix := [[0, 1], [1, 0]]\<rparr>" 0
      "[PyArray [[1, 0], [0, 1]], PyInt (- 1), PyBool True]"
      "\<lparr>rc_N = 2, rc_M = 2, rc_density = 1 / 2, rc_matrix = [[1, 1], [0, 1]]\<rparr>" 1
      "[PyArray [[1, 0], [0, 1]], PyInt (- 1), PyBool True]"
      "\<lambda>g a. Inr (g + 1, g, 5 / 2, False, [(''ale.lives'', 2)])" "\<lambda>s. s"
      "\<lparr>at_env = (7::nat), at_no_op_max = 30, at_history = Some [1, 2, 3, 4], at_lives = 3,
          at_reset_on_death = True\<rparr>" 0
      "[PyStack [7, 1, 2, 3], PyFloat 1, PyBool True, PyDict [(''ale.lives'', 2)]]"] a b c
  show ?thesis by blast
qed

section \<open>The rollout of AgentBaseline\<close>

lemma store_step_frame:
  "store_step env_step st r a = Inr (st', ob, reward, dn, info) \<Longrightarrow>
     length st' = length st \<and> (\<forall>i. i \<noteq> r \<longrightarrow> st' ! i = st ! i)"
  by (auto simp: store_step_def split: sum.splits)

lemma predict_loop_frame:
  fixes env_step :: "'s \<Rightarrow> 'a \<Rightarrow> py_error + ('s \<times> 'o \<times> real \<times> bool \<times> 'i)"
    and act :: "'g \<Rightarrow> 'o \<Rightarrow> 'a \<times> 'g"
  assumes "predict_loop env_step act gam st r ag state R discount = Some y"
  shows "\<forall>R' st' ag'. y = Inr (R', st', ag') \<longrightarrow>
           length st' = length st \<and> (\<forall>i. i \<noteq> r \<longrightarrow> st' ! i = st ! i)"
proof (rule predict_loop.raw_induct[where P = "\<lambda>es ac gm st r ag state R discount y.
          \<forall>R' st' ag'. y = Inr (R', st', ag') \<longrightarrow>
            length st' = length st \<and> (\<forall>i. i \<noteq> r \<longrightarrow> st' ! i = st ! i)", OF _ assms])
  fix loop :: "('s \<Rightarrow> 'a \<Rightarrow> py_error + ('s \<times> 'o \<times> real \<times> bool \<times> 'i)) \<Rightarrow> ('g \<Rightarrow> 'o \<Rightarrow> 'a \<times> 'g)
      \<Rightarrow> real \<Rightarrow> 's list \<Rightarrow> nat \<Rightarrow> 'g \<Rightarrow> 'o \<Rightarrow> real \<Rightarrow> real
      \<Rightarrow> (py_error + (real \<times> 's list \<times> 'g)) option"
    and es :: "'s \<Rightarrow> 'a \<Rightarrow> py_error + ('s \<times> 'o \<times> real \<times> bool \<times> 'i)"
    and ac :: "'g \<Rightarrow> 'o \<Rightarrow> 'a \<times> 'g"
    and gm st r ag state R discount y
  assume IH: "\<And>es ac gm st r ag state R discount y.
      loop es ac gm st r ag state R discount = Some y \<Longrightarrow>
      \<forall>R' st' ag'. y = Inr (R', st', ag') \<longrightarrow>
        length st' = length st \<and> (\<forall>i. i \<noteq> r \<longrightarrow> st' ! i = st ! i)"
  assume body: "(case ac ag state of
      (action, ag') \<Rightarrow>
        (case store_step es st r action of
           Inl e \<Rightarrow> Some (Inl e)
         | Inr (st', state', reward, dn, info) \<Rightarrow>
             if dn then Some (Inr (R + reward * discount, st', ag'))
             else loop es ac gm st' r ag' state' (R + reward * discount) (discount * gm)))
      = Some y"
  obtain action ag1 where a: "ac ag state = (action, ag1)"
    by (cases "ac ag state") auto
  show "\<forall>R' st' ag'. y = Inr (R', st', ag') \<longrightarrow>
          length st' = length st \<and> (\<forall>i. i \<noteq> r \<longrightarrow> st' ! i = st ! i)"
  proof (cases "store_step es st r action")
    case (Inl e)
    with body a show ?thesis by auto
  next
    case (Inr res)
    then obtain st1 state1 reward dn info where
      st: "store_step es st r action = Inr (st1, state1, reward, dn, info)"
      by (cases res) auto
    note fr = store_step_frame[OF st]
    show ?thesis
    proof (cases dn)
      case True
      with body a st fr show ?thesis by auto
    next
      case False
      with body a st have
        "loop es ac gm st1 r ag1 state1 (R + reward * discount) (discount * gm) = Some y"
        by simp
      from IH[OF this] fr show ?thesis by auto
    qed
  qed
qed

text \<open>
  Claim C6. \<open>AgentBaseline.predict(env)\<close> steps only the object \<open>env.copy()\<close> returned.
  When the call returns, every object that was in the store before the call, the
  environment passed in among them, has the state it had before; the store has one object
  more, the clone.
\<close>

theorem AgentBaseline_predict_leaves_env_unchanged:
  assumes "AgentBaseline_predict env_step observe act gam st env ag = Some (Inr (R, st', ag'))"
    and "env < length st"
  shows "st' ! env = st ! env \<and> take (length st) st' = st \<and> length st' = Suc (length st)"
proof -
  from assms(1) have
    "predict_loop env_step act gam (st @ [st ! env]) (length st) ag
       (observe ((st @ [st ! env]) ! length st)) 0 1 = Some (Inr (R, st', ag'))"
    by (simp add: AgentBaseline_predict_def env_copy_def)
  from predict_loop_frame[OF this] have
    len: "length st' = Suc (length st)" and
    fr: "\<forall>i. i \<noteq> length st \<longrightarrow> st' ! i = (st @ [st ! env]) ! i"
    by auto
  have "take (length st) st' = st"
    using len fr by (auto simp: list_eq_iff_nth_eq nth_append)
  moreover have "st' ! env = st ! env"
    using fr assms(2) by (auto simp: nth_append)
  ultimately show ?thesis using len by simp
qed

theorem AgentBaseline_predict_leaves_env_unchanged_witness:
  "AgentBaseline_predict
      (\<lambda>s (a::int). if a = 0 then Inr (Suc s, Suc s, - 1, Suc s \<ge> 3, ()) else Inl ValueError)
      (\<lambda>s. s) (\<lambda>ag ob. (0, Suc ag)) (1 / 2) [0, 5] 0 (0::nat)
     = Some (Inr (- (7 / 4), [0, 5, 3], 3))
   \<and> (0::nat) < length [0, 5 :: nat]
   \<and> [0, 5, 3] ! 0 = [0, 5 :: nat] ! 0
   \<and> take (length [0, 5 :: nat]) [0, 5, 3] = [0, 5 :: nat]
   \<and> length [0, 5, 3 :: nat] = Suc (length [0, 5 :: nat])"
proof -
  have run: "AgentBaseline_predict
      (\<lambda>s (a::int). if a = 0 then Inr (Suc s, Suc s, - 1, Suc s \<ge> 3, ()) else Inl ValueError)
      (\<lambda>s. s) (\<lambda>ag ob. (0, Suc ag)) (1 / 2) [0, 5] 0 (0::nat)
     = Some (Inr (- (7 / 4), [0, 5, 3], 3))"
    by code_simp
  have lt: "(0::nat) < length [0, 5 :: nat]" by simp
  from AgentBaseline_predict_leaves_env_unchanged[OF run lt] run lt
  show ?thesis by simp
qed

section \<open>The state after \<open>reset\<close>\<close>

lemma RowChoice_reset_loop_not_reduced:
  assumes "RowChoice_reset_loop env rnd k = Some y"
  shows "\<forall>env' k'. y = Inr (env', k') \<longrightarrow> is_reduced (rc_matrix env') (rc_N env') = Inr False"
proof (rule RowChoice_reset_loop.raw_induct[where P = "\<lambda>env rnd k y.
          \<forall>env' k'. y = Inr (env', k') \<longrightarrow> is_reduced (rc_matrix env') (rc_N env') = Inr False",
        OF _ assms])
  fix loop :: "RowChoiceEnvironment \<Rightarrow> (nat \<Rightarrow> nat \<Rightarrow> nat \<Rightarrow> real) \<Rightarrow> nat
     \<Rightarrow> (py_error + (RowChoiceEnvironment \<times> nat)) option"
    and env rnd k y
  assume IH: "\<And>env rnd k y. loop env rnd k = Some y \<Longrightarrow>
      \<forall>env' k'. y = Inr (env', k') \<longrightarrow> is_reduced (rc_matrix env') (rc_N env') = Inr False"
  assume body: "(case is_reduced (rc_matrix env) (rc_N env) of
        Inl e \<Rightarrow> Some (Inl e)
      | Inr b \<Rightarrow>
          if b then
            loop (env\<lparr>rc_matrix := RowChoice_random_matrix env (rnd k)\<rparr>) rnd (Suc k)
          else Some (Inr (env, k))) = Some y"
  show "\<forall>env' k'. y = Inr (env', k') \<longrightarrow> is_reduced (rc_matrix env') (rc_N env') = Inr False"
  proof (cases "is_reduced (rc_matrix env) (rc_N env)")
    case (Inl e)
    with body show ?thesis by auto
  next
    case (Inr b)
    show ?thesis
    proof (cases b)
      case True
      with body Inr have
        "loop (env\<lparr>rc_matrix := RowChoice_random_matrix env (rnd k)\<rparr>) rnd (Suc k) = Some y"
        by simp
      from IH[OF this] show ?thesis .
    next
      case False
      with body Inr show ?thesis by auto
    qed
  qed
qed

lemma RowChoiceExtra_reset_loop_not_reduced:
  assumes "RowChoiceExtra_reset_loop env rnd k = Some y"
  shows "\<forall>env' k'. y = Inr (env', k') \<longrightarrow> is_reduced (rx_matrix env') (rx_N env') = Inr False"
proof (rule RowChoiceExtra_reset_loop.raw_induct[where P = "\<lambda>env rnd k y.
          \<forall>env' k'. y = Inr (env', k') \<longrightarrow> is_reduced (rx_matrix env') (rx_N env') = Inr False",
        OF _ assms])
  fix loop :: "RowChoiceEnvironmentExtra \<Rightarrow> (nat \<Rightarrow> nat \<Rightarrow> nat \<Rightarrow> real) \<Rightarrow> nat
     \<Rightarrow> (py_error + (RowChoiceEnvironmentExtra \<times> nat)) option"
    and env rnd k y
  assume IH: "\<And>env rnd k y. loop env rnd k = Some y \<Longrightarrow>
      \<forall>env' k'. y = Inr (env', k') \<longrightarrow> is_reduced (rx_matrix env') (rx_N env') = Inr False"
  assume body: "(case is_reduced (rx_matrix env) (rx_N env) of
        Inl e \<Rightarrow> Some (Inl e)
      | Inr b \<Rightarrow>
          if b then
            loop (env\<lparr>rx_matrix := RowChoiceExtra_random_matrix env (rnd k)\<rparr>) rnd (Suc k)
          else Some (Inr (env, k))) = Some y"
  show "\<forall>env' k'. y = Inr (env', k') \<longrightarrow> is_reduced (rx_matrix env') (rx_N env') = Inr False"
  proof (cases "is_reduced (rx_matrix env) (rx_N env)")
    case (Inl e)
    with body show ?thesis by auto
  next
    case (Inr b)
    show ?thesis
    proof (cases b)
      case True
      with body Inr have
        "loop (env\<lparr>rx_matrix := RowChoiceExtra_random_matrix env (rnd k)\<rparr>) rnd (Suc k) = Some y"
        by simp
      from IH[OF this] show ?thesis .
    next
      case False
      with body Inr show ?thesis by auto
    qed
  qed
qed

lemma RowEchelon_reset_loop_not_echelon:
  assumes "RowEchelon_reset_loop env rnd k = Some y"
  shows "\<forall>env' k'. y = Inr (env', k') \<longrightarrow> is_row_echelon env' = Inr False"
proof (rule RowEchelon_reset_loop.raw_induct[where P = "\<lambda>env rnd k y.
          \<forall>env' k'. y = Inr (env', k') \<longrightarrow> is_row_echelon env' = Inr False",
        OF _ assms])
  fix loop :: "RowEchelonEnvironment \<Rightarrow> (nat \<Rightarrow> nat \<Rightarrow> nat \<Rightarrow> int) \<Rightarrow> nat
     \<Rightarrow> (py_error + (RowEchelonEnvironment \<times> nat)) option"
    and env rnd k y
  assume IH: "\<And>env rnd k y. loop env rnd k = Some y \<Longrightarrow>
      \<forall>env' k'. y = Inr (env', k') \<longrightarrow> is_row_echelon env' = Inr False"
  assume body: "(case is_row_echelon env of
        Inl e \<Rightarrow> Some (Inl e)
      | Inr b \<Rightarrow>
          if b then
            (case RowEchelon_random_matrix env (rnd k) of
               Inl e \<Rightarrow> Some (Inl e)
             | Inr m \<Rightarrow> loop (env\<lparr>re_matrix := m\<rparr>) rnd (Suc k))
          else Some (Inr (env, k))) = Some y"
  show "\<forall>env' k'. y = Inr (env', k') \<longrightarrow> is_row_echelon env' = Inr False"
  proof (cases "is_row_echelon env")
    case (Inl e)
    with body show ?thesis by auto
  next
    case (Inr b)
    show ?thesis
    proof (cases b)
      case True
      note b = this
      show ?thesis
      proof (cases "RowEchelon_random_matrix env (rnd k)")
        case (Inl e)
        with body Inr b show ?thesis by auto
      next
        case (Inr m)
        with body \<open>is_row_echelon env = Inr b\<close> b have
          "loop (env\<lparr>re_matrix := m\<rparr>) rnd (Suc k) = Some y"
          by simp
        from IH[OF this] show ?thesis .
      qed
    next
      case False
      with body Inr show ?thesis by auto
    qed
  qed
qed

text \<open>
  Claim C9. Whenever \<open>reset\<close> of \<open>RowEchelonEnvironment\<close>, \<open>RowChoiceEnvironment\<close> or
  \<open>RowChoiceEnvironmentExtra\<close> returns, the terminal predicate of the environment
  (\<open>_is_row_echelon\<close>, \<open>_is_reduced\<close>) is false on the state it leaves, and the
  observation returned is the matrix of that state.
\<close>

theorem reset_never_returns_terminal:
  "(RowEchelon_reset env rnd k = Some (Inr (env', ob, k')) \<longrightarrow>
      is_row_echelon env' = Inr False \<and> ob = re_matrix env')
   \<and> (RowChoice_reset cenv crnd ck = Some (Inr (cenv', cob, ck')) \<longrightarrow>
      is_reduced (rc_matrix cenv') (rc_N cenv') = Inr False \<and> cob = rc_matrix cenv')
   \<and> (RowChoiceExtra_reset xenv xrnd xk = Some (Inr (xenv', xob, xk')) \<longrightarrow>
      is_reduced (rx_matrix xenv') (rx_N xenv') = Inr False \<and> snd xob = rx_matrix xenv')"
proof (intro conjI impI)
  assume r: "RowEchelon_reset env rnd k = Some (Inr (env', ob, k'))"
  then obtain m where "RowEchelon_reset_loop (env\<lparr>re_matrix := m\<rparr>) rnd (Suc k) = Some (Inr (env', k'))"
    and ob: "ob = re_matrix env'"
    by (auto simp: RowEchelon_reset_def split: sum.splits option.splits)
  from RowEchelon_reset_loop_not_echelon[OF this(1)]
  show "is_row_echelon env' = Inr False" by simp
  from ob show "ob = re_matrix env'" .
next
  assume r: "RowChoice_reset cenv crnd ck = Some (Inr (cenv', cob, ck'))"
  then have "RowChoice_reset_loop (cenv\<lparr>rc_matrix := RowChoice_random_matrix cenv (crnd ck)\<rparr>) crnd (Suc ck)
      = Some (Inr (cenv', ck'))" and ob: "cob = rc_matrix cenv'"
    by (auto simp: RowChoice_reset_def split: sum.splits option.splits)
  from RowChoice_reset_loop_not_reduced[OF this(1)]
  show "is_reduced (rc_matrix cenv') (rc_N cenv') = Inr False" by simp
  from ob show "cob = rc_matrix cenv'" .
next
  assume r: "RowChoiceExtra_reset xenv xrnd xk = Some (Inr (xenv', xob, xk'))"
  then obtain e1 where
    l: "RowChoiceExtra_reset_loop (xenv\<lparr>rx_matrix := RowChoiceExtra_random_matrix xenv (xrnd xk)\<rparr>) xrnd (Suc xk)
      = Some (Inr (e1, xk'))"
    and e: "xenv' = e1\<lparr>rx_rows := Arr2 (replicate (rx_N e1) [1])\<rparr>"
    and ob: "snd xob = rx_matrix e1"
    by (auto simp: RowChoiceExtra_reset_def Let_def split: sum.splits option.splits)
  from RowChoiceExtra_reset_loop_not_reduced[OF l] e
  show "is_reduced (rx_matrix xenv') (rx_N xenv') = Inr False" by simp
  from ob e show "snd xob = rx_matrix xenv'" by simp
qed

theorem reset_never_returns_terminal_witness:
  "RowEchelon_reset (RowEchelon_init (2, 2) 2) (\<lambda>k i j. if k = 0 then 0 else if i = j then 0 else 1) 0
     = Some (Inr ((RowEchelon_init (2, 2) 2)\<lparr>re_matrix := [[0, 1], [1, 0]]\<rparr>, [[0, 1], [1, 0]], 2))
   \<and> is_row_echelon ((RowEchelon_init (2, 2) 2)\<lparr>re_matrix := [[0, 1], [1, 0]]\<rparr>) = Inr False
   \<and> RowChoice_reset (RowChoice_init (2, 2) (1 / 2)) (\<lambda>k i j. if i = 1 \<and> j = 0 then 0 else 9 / 10) 0
     = Some (Inr (\<lparr>rc_N = 2, rc_M = 2, rc_density = 1 / 2, rc_matrix = [[1, 1], [0, 1]]\<rparr>,
                  [[1, 1], [0, 1]], 1))
   \<and> is_reduced [[1, 1], [0, 1]] 2 = Inr False
   \<and> RowChoiceExtra_reset (RowChoiceExtra_init (2, 2) (1 / 2))
        (\<lambda>k i j. if k = 0 then 0 else if i = 1 \<and> j = 0 then 0 else 9 / 10) 0
     = Some (Inr (\<lparr>rx_N = 2, rx_M = 2, rx_density = 1 / 2, rx_matrix = [[1, 1], [0, 1]],
                    rx_rows = Arr2 [[1], [1]]\<rparr>,
                  (Arr2 [[1], [1]], [[1, 1], [0, 1]]), 2))"
proof -
  have a: "RowEchelon_reset (RowEchelon_init (2, 2) 2) (\<lambda>k i j. if k = 0 then 0 else if i = j then 0 else 1) 0
     = Some (Inr ((RowEchelon_init (2, 2) 2)\<lparr>re_matrix := [[0, 1], [1, 0]]\<rparr>, [[0, 1], [1, 0]], 2))"
    by code_simp
  have b: "RowChoice_reset (RowChoice_init (2, 2) (1 / 2)) (\<lambda>k i j. if i = 1 \<and> j = 0 then 0 else 9 / 10) 0
     = Some (Inr (\<lparr>rc_N = 2, rc_M = 2, rc_density = 1 / 2, rc_matrix = [[1, 1], [0, 1]]\<rparr>,
                  [[1, 1], [0, 1]], 1))"
    by code_simp
  have c: "RowChoiceExtra_reset (RowChoiceExtra_init (2, 2) (1 / 2))
        (\<lambda>k i j. if k = 0 then 0 else if i = 1 \<and> j = 0 then 0 else 9 / 10) 0
     = Some (Inr (\<lparr>rx_N = 2, rx_M = 2, rx_density = 1 / 2, rx_matrix = [[1, 1], [0, 1]],
                    rx_rows = Arr2 [[1], [1]]\<rparr>,
                  (Arr2 [[1], [1]], [[1, 1], [0, 1]]), 2))"
    by code_simp
  from reset_never_returns_terminal[of
      "RowEchelon_init (2, 2) 2" "\<lambda>k i j. if k = 0 then 0 else if i = j then 0 else 1" 0
      "(RowEchelon_init (2, 2) 2)\<lparr>re_matrix := [[0, 1], [1, 0]]\<rparr>" "[[0, 1], [1, 0]]" 2
      "RowChoice_init (2, 2) (1 / 2)" "\<lambda>k i j. if i = 1 \<and> j = 0 then 0 else 9 / 10" 0
      "\<lparr>rc_N = 2, rc_M = 2, rc_density = 1 / 2, rc_matrix = [[1, 1], [0, 1]]\<rparr>" "[[1, 1], [0, 1]]" 1
      "RowChoiceExtra_init (2, 2) (1 / 2)"
      "\<lambda>k i j. if k = 0 then 0 else if i = 1 \<and> j = 0 then 0 else 9 / 10" 0
      "\<lparr>rx_N = 2, rx_M = 2, rx_density = 1 / 2, rx_matrix = [[1, 1], [0, 1]],
         rx_rows = Arr2 [[1], [1]]\<rparr>" "(Arr2 [[1], [1]], [[1, 1], [0, 1]])" 2] a b c
  show ?thesis by simp
qed

section \<open>Entries of the row-choice matrices\<close>

lemma binary_np_zeros: "binary (np_zeros n k)"
  by (auto simp: binary_def np_zeros_def)

lemma binary_threshold_matrix: "binary (threshold_matrix n k density u)"
  by (auto simp: binary_def threshold_matrix_def)

lemma add_rows_mod_2_binary: "x \<in> set (add_rows_mod 2 a b) \<Longrightarrow> x = 0 \<or> x = 1"
  by (auto simp: add_rows_mod_def np_mod_def)

lemma binary_update:
  "binary m \<Longrightarrow> \<forall>x \<in> set r. x = 0 \<or> x = 1 \<Longrightarrow> binary (m[i := r])"
  unfolding binary_def using set_update_subset_insert[of m i r] by blast

lemma pivot_loop_binary:
  "pivot_loop a l ks m moves = Inr (m', moves') \<Longrightarrow> binary m \<Longrightarrow> binary m'"
proof (induction ks arbitrary: m moves)
  case Nil
  then show ?case by simp
next
  case (Cons i rest)
  show ?case
  proof (cases "int i \<noteq> a")
    case False
    with Cons show ?thesis by simp
  next
    case True
    note ne = this
    show ?thesis
    proof (cases "entry_at m (int i) l")
      case (Inl e)
      with Cons.prems ne show ?thesis by simp
    next
      case (Inr x)
      show ?thesis
      proof (cases "x \<noteq> 0")
        case False
        with Cons Inr ne show ?thesis by simp
      next
        case True
        with Cons.prems(1) Inr ne obtain ri ra where
          "pivot_loop a l rest (m[i := add_rows_mod 2 ri ra]) (moves + 1) = Inr (m', moves')"
          by (auto split: sum.splits)
        moreover have "binary (m[i := add_rows_mod 2 ri ra])"
          using Cons.prems(2) by (auto intro!: binary_update dest: add_rows_mod_2_binary)
        ultimately show ?thesis by (rule Cons.IH)
      qed
    qed
  qed
qed

lemma RowChoice_step_binary:
  "RowChoice_step env a = Inr (env', ob, r, d) \<Longrightarrow> binary (rc_matrix env) \<Longrightarrow>
     binary (rc_matrix env') \<and> binary ob"
  by (auto simp: RowChoice_step_def split: sum.splits option.splits prod.splits if_splits
        dest: pivot_loop_binary)

lemma RowChoiceExtra_step_binary:
  "RowChoiceExtra_step env a = Inr (env', ob, r, d) \<Longrightarrow> binary (rx_matrix env) \<Longrightarrow>
     binary (rx_matrix env') \<and> binary (snd ob)"
  by (auto simp: RowChoiceExtra_step_def split: sum.splits option.splits prod.splits if_splits
        dest: pivot_loop_binary)

lemma RowChoice_reset_loop_binary:
  assumes "RowChoice_reset_loop env rnd k = Some y"
  shows "binary (rc_matrix env) \<longrightarrow> (\<forall>env' k'. y = Inr (env', k') \<longrightarrow> binary (rc_matrix env'))"
proof (rule RowChoice_reset_loop.raw_induct[where P = "\<lambda>env rnd k y.
          binary (rc_matrix env) \<longrightarrow> (\<forall>env' k'. y = Inr (env', k') \<longrightarrow> binary (rc_matrix env'))",
        OF _ assms])
  fix loop :: "RowChoiceEnvironment \<Rightarrow> (nat \<Rightarrow> nat \<Rightarrow> nat \<Rightarrow> real) \<Rightarrow> nat
     \<Rightarrow> (py_error + (RowChoiceEnvironment \<times> nat)) option"
    and env rnd k y
  assume IH: "\<And>env rnd k y. loop env rnd k = Some y \<Longrightarrow>
      binary (rc_matrix env) \<longrightarrow> (\<forall>env' k'. y = Inr (env', k') \<longrightarrow> binary (rc_matrix env'))"
  assume body: "(case is_reduced (rc_matrix env) (rc_N env) of
        Inl e \<Rightarrow> Some (Inl e)
      | Inr b \<Rightarrow>
          if b then
            loop (env\<lparr>rc_matrix := RowChoice_random_matrix env (rnd k)\<rparr>) rnd (Suc k)
          else Some (Inr (env, k))) = Some y"
  show "binary (rc_matrix env) \<longrightarrow> (\<forall>env' k'. y = Inr (env', k') \<longrightarrow> binary (rc_matrix env'))"
  proof (cases "is_reduced (rc_matrix env) (rc_N env)")
    case (Inl e)
    with body show ?thesis by auto
  next
    case (Inr b)
    show ?thesis
    proof (cases b)
      case True
      with body Inr have
        "loop (env\<lparr>rc_matrix := RowChoice_random_matrix env (rnd k)\<rparr>) rnd (Suc k) = Some y"
        by simp
      from IH[OF this] show ?thesis
        by (simp add: RowChoice_random_matrix_def binary_threshold_matrix)
    next
      case False
      with body Inr show ?thesis by auto
    qed
  qed
qed

lemma RowChoiceExtra_reset_loop_binary:
  assumes "RowChoiceExtra_reset_loop env rnd k = Some y"
  shows "binary (rx_matrix env) \<longrightarrow> (\<forall>env' k'. y = Inr (env', k') \<longrightarrow> binary (rx_matrix env'))"
proof (rule RowChoiceExtra_reset_loop.raw_induct[where P = "\<lambda>env rnd k y.
          binary (rx_matrix env) \<longrightarrow> (\<forall>env' k'. y = Inr (env', k') \<longrightarrow> binary (rx_matrix env'))",
        OF _ assms])
  fix loop :: "RowChoiceEnvironmentExtra \<Rightarrow> (nat \<Rightarrow> nat \<Rightarrow> nat \<Rightarrow> real) \<Rightarrow> nat
     \<Rightarrow> (py_error + (RowChoiceEnvironmentExtra \<times> nat)) option"
    and env rnd k y
  assume IH: "\<And>env rnd k y. loop env rnd k = Some y \<Longrightarrow>
      binary (rx_matrix env) \<longrightarrow> (\<forall>env' k'. y = Inr (env', k') \<longrightarrow> binary (rx_matrix env'))"
  assume body: "(case is_reduced (rx_matrix env) (rx_N env) of
        Inl e \<Rightarrow> Some (Inl e)
      | Inr b \<Rightarrow>
          if b then
            loop (env\<lparr>rx_matrix := RowChoiceExtra_random_matrix env (rnd k)\<rparr>) rnd (Suc k)
          else Some (Inr (env, k))) = Some y"
  show "binary (rx_matrix env) \<longrightarrow> (\<forall>env' k'. y = Inr (env', k') \<longrightarrow> binary (rx_matrix env'))"
  proof (cases "is_reduced (rx_matrix env) (rx_N env)")
    case (Inl e)
    with body show ?thesis by auto
  next
    case (Inr b)
    show ?thesis
    proof (cases b)
      case True
      with body Inr have
        "loop (env\<lparr>rx_matrix := RowChoiceExtra_random_matrix env (rnd k)\<rparr>) rnd (Suc k) = Some y"
        by simp
      from IH[OF this] show ?thesis
        by (simp add: RowChoiceExtra_random_matrix_def binary_threshold_matrix)
    next
      case False
      with body Inr show ?thesis by auto
    qed
  qed
qed

lemma RowChoice_reset_binary:
  assumes "RowChoice_reset env rnd k = Some (Inr (env', ob, k'))"
  shows "binary (rc_matrix env') \<and> binary ob"
proof -
  from assms have
    l: "RowChoice_reset_loop (env\<lparr>rc_matrix := RowChoice_random_matrix env (rnd k)\<rparr>) rnd (Suc k)
      = Some (Inr (env', k'))" and ob: "ob = rc_matrix env'"
    by (auto simp: RowChoice_reset_def split: sum.splits option.splits)
  from RowChoice_reset_loop_binary[OF l] ob show ?thesis
    by (simp add: RowChoice_random_matrix_def binary_threshold_matrix)
qed

lemma RowChoiceExtra_reset_binary:
  assumes "RowChoiceExtra_reset env rnd k = Some (Inr (env', ob, k'))"
  shows "binary (rx_matrix env') \<and> binary (snd ob)"
proof -
  from assms obtain e1 where
    l: "RowChoiceExtra_reset_loop (env\<lparr>rx_matrix := RowChoiceExtra_random_matrix env (rnd k)\<rparr>) rnd (Suc k)
      = Some (Inr (e1, k'))"
    and e: "env' = e1\<lparr>rx_rows := Arr2 (replicate (rx_N e1) [1])\<rparr>"
    and ob: "snd ob = rx_matrix e1"
    by (auto simp: RowChoiceExtra_reset_def Let_def split: sum.splits option.splits)
  from RowChoiceExtra_reset_loop_binary[OF l] ob e show ?thesis
    by (simp add: RowChoiceExtra_random_matrix_def binary_threshold_matrix)
qed

text \<open>
  Claim C8. In every state that \<open>RowChoiceEnvironment\<close> and \<open>RowChoiceEnvironmentExtra\<close>
  can reach (from the constructor, by any \<open>reset\<close> and any \<open>step\<close> that return) every
  entry of the matrix is \<open>0\<close> or \<open>1\<close>.
\<close>

theorem reachable_matrix_entries_binary:
  "(RowChoice_reachable env \<longrightarrow> binary (rc_matrix env))
   \<and> (RowChoiceExtra_reachable xenv \<longrightarrow> binary (rx_matrix xenv))"
proof (intro conjI impI)
  assume "RowChoice_reachable env"
  then show "binary (rc_matrix env)"
  proof (induction rule: RowChoice_reachable.induct)
    case (rc_init shape density)
    show ?case by (simp add: RowChoice_init_def binary_np_zeros)
  next
    case (rc_reset env rnd k env' ob k')
    then show ?case using RowChoice_reset_binary by blast
  next
    case (rc_step env a env' ob r d)
    then show ?case using RowChoice_step_binary by blast
  qed
next
  assume "RowChoiceExtra_reachable xenv"
  then show "binary (rx_matrix xenv)"
  proof (induction rule: RowChoiceExtra_reachable.induct)
    case (rx_init shape density)
    show ?case by (simp add: RowChoiceExtra_init_def binary_np_zeros)
  next
    case (rx_reset env rnd k env' ob k')
    then show ?case using RowChoiceExtra_reset_binary by blast
  next
    case (rx_step env a env' ob r d)
    then show ?case using RowChoiceExtra_step_binary by blast
  qed
qed

theorem reachable_matrix_entries_binary_witness:
  "RowChoice_reachable \<lparr>rc_N = 2, rc_M = 2, rc_density = 1 / 2, rc_matrix = [[1, 0], [0, 1]]\<rparr>
   \<and> binary (rc_matrix \<lparr>rc_N = 2, rc_M = 2, rc_density = 1 / 2, rc_matrix = [[1, 0], [0, 1]]\<rparr>)
   \<and> RowChoiceExtra_reachable \<lparr>rx_N = 2, rx_M = 2, rx_density = 1 / 2, rx_matrix = [[1, 0], [0, 1]],
                    rx_rows = Arr2 [[1], [0]]\<rparr>
   \<and> binary (rx_matrix \<lparr>rx_N = 2, rx_M = 2, rx_density = 1 / 2, rx_matrix = [[1, 0], [0, 1]],
                    rx_rows = Arr2 [[1], [0]]\<rparr>)"
proof -
  let ?c1 = "\<lparr>rc_N = 2, rc_M = 2, rc_density = 1 / 2, rc_matrix = [[1, 1], [0, 1]]\<rparr>"
  let ?c2 = "\<lparr>rc_N = 2, rc_M = 2, rc_density = 1 / 2, rc_matrix = [[1, 0], [0, 1]]\<rparr>"
  let ?x1 = "\<lparr>rx_N = 2, rx_M = 2, rx_density = 1 / 2, rx_matrix = [[1, 1], [0, 1]],
                    rx_rows = Arr2 [[1], [1]]\<rparr>"
  let ?x2 = "\<lparr>rx_N = 2, rx_M = 2, rx_density = 1 / 2, rx_matrix = [[1, 0], [0, 1]],
                    rx_rows = Arr2 [[1], [0]]\<rparr>"
  have "RowChoice_reset (RowChoice_init (2, 2) (1 / 2)) (\<lambda>k i j. if i = 1 \<and> j = 0 then 0 else 9 / 10) 0
     = Some (Inr (?c1, [[1, 1], [0, 1]], 1))"
    by code_simp
  then have c1: "RowChoice_reachable ?c1"
    using RowChoice_reachable.rc_init RowChoice_reachable.rc_reset by blast
  have "RowChoice_step ?c1 1 = Inr (?c2, [[1, 0], [0, 1]], - 1, True)"
    by code_simp
  with c1 have c2: "RowChoice_reachable ?c2"
    using RowChoice_reachable.rc_step by blast
  have "RowChoiceExtra_reset (RowChoiceExtra_init (2, 2) (1 / 2))
        (\<lambda>k i j. if k = 0 then 0 else if i = 1 \<and> j = 0 then 0 else 9 / 10) 0
     = Some (Inr (?x1, (Arr2 [[1], [1]], [[1, 1], [0, 1]]), 2))"
    by code_simp
  then have x1: "RowChoiceExtra_reachable ?x1"
    using RowChoiceExtra_reachable.rx_init RowChoiceExtra_reachable.rx_reset by blast
  have "RowChoiceExtra_step ?x1 1 = Inr (?x2, (Arr2 [[1], [0]], [[1, 0], [0, 1]]), - 1, True)"
    by code_simp
  with x1 have x2: "RowChoiceExtra_reachable ?x2"
    using RowChoiceExtra_reachable.rx_step by blast
  from reachable_matrix_entries_binary[of ?c2 ?x2] c2 x2
  show ?thesis by simp
qed

section \<open>Observations and the array of the environment\<close>

lemma RowEchelonObject_step_value:
  assumes "ro_matrix obj < length h"
  shows "RowEchelonObject_step obj h a =
     (case RowEchelon_step (RowEchelonObject_load obj h) a of
        Inl e \<Rightarrow> Inl e
      | Inr (env', ob, r, d) \<Rightarrow> Inr (h[ro_matrix obj := ob] @ [ob], length h, r, d))"
  using assms
  by (auto simp: RowEchelonObject_step_def RowEchelon_step_def RowEchelonObject_load_def
        np_copy_def Let_def is_row_echelon_def nth_append split: sum.splits)

lemma RowChoiceObject_step_value:
  assumes "co_matrix obj < length h"
  shows "RowChoiceObject_step obj h a =
     (case RowChoice_step (RowChoiceObject_load obj h) a of
        Inl e \<Rightarrow> Inl e
      | Inr (env', ob, r, d) \<Rightarrow> Inr (h[co_matrix obj := ob] @ [ob], length h, r, d))"
  using assms
  by (auto simp: RowChoiceObject_step_def RowChoice_step_def RowChoiceObject_load_def
        np_copy_def Let_def nth_append split: sum.splits option.splits)

lemma RowEchelon_step_ob: "RowEchelon_step env a = Inr (env', ob, r, d) \<Longrightarrow> ob = re_matrix env'"
  by (auto simp: RowEchelon_step_def Let_def split: sum.splits)

lemma RowEchelonObject_step_fresh:
  assumes p: "ro_matrix obj < length h"
    and st: "RowEchelonObject_step obj h a = Inr (h', ob, r, d)"
  shows "ob = length h \<and> length h' = Suc (length h) \<and> h' ! ob = h' ! ro_matrix obj
         \<and> (\<forall>q < length h. q \<noteq> ro_matrix obj \<longrightarrow> h' ! q = h ! q)"
  using st p unfolding RowEchelonObject_step_value[OF p]
  by (auto simp: nth_append split: sum.splits)

lemma RowChoiceObject_step_fresh:
  assumes p: "co_matrix obj < length h"
    and st: "RowChoiceObject_step obj h a = Inr (h', ob, r, d)"
  shows "ob = length h \<and> length h' = Suc (length h) \<and> h' ! ob = h' ! co_matrix obj
         \<and> (\<forall>q < length h. q \<noteq> co_matrix obj \<longrightarrow> h' ! q = h ! q)"
  using st p unfolding RowChoiceObject_step_value[OF p]
  by (auto simp: nth_append split: sum.splits)

lemma RowEchelonObject_load_update:
  "q \<noteq> ro_matrix obj \<Longrightarrow> RowEchelonObject_load obj (h[q := v]) = RowEchelonObject_load obj h"
  by (simp add: RowEchelonObject_load_def)

lemma RowChoiceObject_load_update:
  "q \<noteq> co_matrix obj \<Longrightarrow> RowChoiceObject_load obj (h[q := v]) = RowChoiceObject_load obj h"
  by (simp add: RowChoiceObject_load_def)

lemma RowEchelonObject_step_frame:
  assumes p: "ro_matrix obj < length h" and q: "q < length h" "q \<noteq> ro_matrix obj"
  shows "RowEchelonObject_step obj (h[q := v]) a =
     (case RowEchelonObject_step obj h a of
        Inl e \<Rightarrow> Inl e
      | Inr (h', ob, r, d) \<Rightarrow> Inr (h'[q := v], ob, r, d))"
proof -
  have p': "ro_matrix obj < length (h[q := v])" using p by simp
  show ?thesis
    unfolding RowEchelonObject_step_value[OF p] RowEchelonObject_step_value[OF p']
      RowEchelonObject_load_update[OF q(2)]
    using q by (auto simp: list_update_append1 list_update_swap split: sum.splits)
qed

lemma RowChoiceObject_step_frame:
  assumes p: "co_matrix obj < length h" and q: "q < length h" "q \<noteq> co_matrix obj"
  shows "RowChoiceObject_step obj (h[q := v]) a =
     (case RowChoiceObject_step obj h a of
        Inl e \<Rightarrow> Inl e
      | Inr (h', ob, r, d) \<Rightarrow> Inr (h'[q := v], ob, r, d))"
proof -
  have p': "co_matrix obj < length (h[q := v])" using p by simp
  show ?thesis
    unfolding RowChoiceObject_step_value[OF p] RowChoiceObject_step_value[OF p']
      RowChoiceObject_load_update[OF q(2)]
    using q by (auto simp: list_update_append1 list_update_swap split: sum.splits)
qed

lemma RowEchelonObject_reset_loop_props:
  assumes "RowEchelonObject_reset_loop obj h rnd k = Some y"
  shows "\<forall>obj' h' k'. y = Inr (obj', h', k') \<longrightarrow>
           length h \<le> length h' \<and> take (length h) h' = h
           \<and> (ro_matrix obj < length h \<longrightarrow> ro_matrix obj' < length h')
           \<and> (ro_matrix obj' = ro_matrix obj \<or> length h \<le> ro_matrix obj')
           \<and> (\<forall>q v. q < length h \<and> q \<noteq> ro_matrix obj \<longrightarrow>
                 RowEchelonObject_reset_loop obj (h[q := v]) rnd k
                   = Some (Inr (obj', h'[q := v], k')))"
proof (rule RowEchelonObject_reset_loop.raw_induct[where P = "\<lambda>obj h rnd k y.
          \<forall>obj' h' k'. y = Inr (obj', h', k') \<longrightarrow>
           length h \<le> length h' \<and> take (length h) h' = h
           \<and> (ro_matrix obj < length h \<longrightarrow> ro_matrix obj' < length h')
           \<and> (ro_matrix obj' = ro_matrix obj \<or> length h \<le> ro_matrix obj')
           \<and> (\<forall>q v. q < length h \<and> q \<noteq> ro_matrix obj \<longrightarrow>
                 RowEchelonObject_reset_loop obj (h[q := v]) rnd k
                   = Some (Inr (obj', h'[q := v], k')))", OF _ assms])
  fix loop :: "RowEchelonObject \<Rightarrow> store \<Rightarrow> (nat \<Rightarrow> nat \<Rightarrow> nat \<Rightarrow> int) \<Rightarrow> nat
     \<Rightarrow> (py_error + (RowEchelonObject \<times> store \<times> nat)) option"
    and obj h rnd k y
  assume IH: "\<And>obj h rnd k y. loop obj h rnd k = Some y \<Longrightarrow>
      \<forall>obj' h' k'. y = Inr (obj', h', k') \<longrightarrow>
           length h \<le> length h' \<and> take (length h) h' = h
           \<and> (ro_matrix obj < length h \<longrightarrow> ro_matrix obj' < length h')
           \<and> (ro_matrix obj' = ro_matrix obj \<or> length h \<le> ro_matrix obj')
           \<and> (\<forall>q v. q < length h \<and> q \<noteq> ro_matrix obj \<longrightarrow>
                 RowEchelonObject_reset_loop obj (h[q := v]) rnd k
                   = Some (Inr (obj', h'[q := v], k')))"
  assume body: "(case row_echelon_loop (h ! ro_matrix obj) [0..<ro_N obj] (Some (- 1)) of
        Inl e \<Rightarrow> Some (Inl e)
      | Inr b \<Rightarrow>
          if b then
            (case RowEchelonObject_random_matrix obj (rnd k) of
               Inl e \<Rightarrow> Some (Inl e)
             | Inr m \<Rightarrow>
                 (case np_new h m of
                    (h1, p) \<Rightarrow> loop (obj\<lparr>ro_matrix := p\<rparr>) h1 rnd (Suc k)))
          else Some (Inr (obj, h, k))) = Some y"
  show "\<forall>obj' h' k'. y = Inr (obj', h', k') \<longrightarrow>
           length h \<le> length h' \<and> take (length h) h' = h
           \<and> (ro_matrix obj < length h \<longrightarrow> ro_matrix obj' < length h')
           \<and> (ro_matrix obj' = ro_matrix obj \<or> length h \<le> ro_matrix obj')
           \<and> (\<forall>q v. q < length h \<and> q \<noteq> ro_matrix obj \<longrightarrow>
                 RowEchelonObject_reset_loop obj (h[q := v]) rnd k
                   = Some (Inr (obj', h'[q := v], k')))"
  proof (intro allI impI)
    fix obj' h' k'
    assume y: "y = Inr (obj', h', k')"
    from body y obtain b where
      b: "row_echelon_loop (h ! ro_matrix obj) [0..<ro_N obj] (Some (- 1)) = Inr b"
      by (auto split: sum.splits)
    show "length h \<le> length h' \<and> take (length h) h' = h
           \<and> (ro_matrix obj < length h \<longrightarrow> ro_matrix obj' < length h')
           \<and> (ro_matrix obj' = ro_matrix obj \<or> length h \<le> ro_matrix obj')
           \<and> (\<forall>q v. q < length h \<and> q \<noteq> ro_matrix obj \<longrightarrow>
                 RowEchelonObject_reset_loop obj (h[q := v]) rnd k
                   = Some (Inr (obj', h'[q := v], k')))"
    proof (cases b)
      case False
      with body b y have eq: "obj' = obj" "h' = h" "k' = k" by auto
      have "RowEchelonObject_reset_loop obj (h[q := v]) rnd k = Some (Inr (obj, h[q := v], k))"
        if "q \<noteq> ro_matrix obj" for q v
        using that b False by (subst RowEchelonObject_reset_loop.simps) simp
      with eq show ?thesis by simp
    next
      case True
      with body b y obtain m where
        m: "RowEchelonObject_random_matrix obj (rnd k) = Inr m" and
        rec: "loop (obj\<lparr>ro_matrix := length h\<rparr>) (h @ [m]) rnd (Suc k) = Some y"
        by (auto simp: np_new_def split: sum.splits)
      from IH[OF rec] y have
        1: "length (h @ [m]) \<le> length h'" and
        2: "take (length (h @ [m])) h' = h @ [m]" and
        3: "ro_matrix obj' < length h'" and
        4: "ro_matrix obj' = length h \<or> length (h @ [m]) \<le> ro_matrix obj'" and
        5: "\<And>q v. q < length (h @ [m]) \<Longrightarrow> q \<noteq> length h \<Longrightarrow>
              RowEchelonObject_reset_loop (obj\<lparr>ro_matrix := length h\<rparr>) ((h @ [m])[q := v]) rnd (Suc k)
                = Some (Inr (obj', h'[q := v], k'))"
        by auto
      have rm: "RowEchelonObject_random_matrix (obj\<lparr>ro_matrix := p\<rparr>) g
                  = RowEchelonObject_random_matrix obj g" for p g
        by (simp add: RowEchelonObject_random_matrix_def)
      have t: "take (length h) h' = h"
      proof -
        have "take (length h) (take (length (h @ [m])) h') = take (length h) (h @ [m])"
          using 2 by simp
        then show ?thesis by (simp add: min_def)
      qed
      have f: "RowEchelonObject_reset_loop obj (h[q := v]) rnd k = Some (Inr (obj', h'[q := v], k'))"
        if q: "q < length h" "q \<noteq> ro_matrix obj" for q v
      proof -
        have "RowEchelonObject_reset_loop (obj\<lparr>ro_matrix := length h\<rparr>) ((h @ [m])[q := v]) rnd (Suc k)
                = Some (Inr (obj', h'[q := v], k'))"
          using 5[of q v] q by simp
        then show ?thesis
          using q b True m
          by (subst RowEchelonObject_reset_loop.simps)
             (simp add: np_new_def list_update_append1)
      qed
      from 1 t 3 4 f show ?thesis by auto
    qed
  qed
qed

lemma RowEchelonObject_reset_props:
  assumes "RowEchelonObject_reset obj h rnd k = Some (Inr (obj', h', ob, k'))"
  shows "Suc ob = length h' \<and> length h < ob \<and> ro_matrix obj' < ob \<and> length h \<le> ro_matrix obj'
         \<and> h' ! ob = h' ! ro_matrix obj' \<and> take (length h) h' = h
         \<and> (\<forall>q v. q < length h \<longrightarrow>
               RowEchelonObject_reset obj (h[q := v]) rnd k = Some (Inr (obj', h'[q := v], ob, k')))"
proof -
  from assms obtain m h2 where
    m: "RowEchelonObject_random_matrix obj (rnd k) = Inr m" and
    l: "RowEchelonObject_reset_loop (obj\<lparr>ro_matrix := length h\<rparr>) (h @ [m]) rnd (Suc k)
          = Some (Inr (obj', h2, k'))" and
    h': "h' = h2 @ [h2 ! ro_matrix obj']" and ob: "ob = length h2"
    by (auto simp: RowEchelonObject_reset_def np_new_def np_copy_def
          split: sum.splits option.splits prod.splits)
  from RowEchelonObject_reset_loop_props[OF l] have
    1: "length (h @ [m]) \<le> length h2" and
    2: "take (length (h @ [m])) h2 = h @ [m]" and
    3: "ro_matrix obj' < length h2" and
    4: "ro_matrix obj' = length h \<or> length (h @ [m]) \<le> ro_matrix obj'" and
    5: "\<And>q v. q < length (h @ [m]) \<Longrightarrow> q \<noteq> length h \<Longrightarrow>
          RowEchelonObject_reset_loop (obj\<lparr>ro_matrix := length h\<rparr>) ((h @ [m])[q := v]) rnd (Suc k)
            = Some (Inr (obj', h2[q := v], k'))"
    by auto
  have t: "take (length h) h' = h"
  proof -
    have "take (length h) (take (length (h @ [m])) h2) = take (length h) (h @ [m])"
      using 2 by simp
    then have "take (length h) h2 = h" by (simp add: min_def)
    then show ?thesis using 1 h' by simp
  qed
  have f: "RowEchelonObject_reset obj (h[q := v]) rnd k = Some (Inr (obj', h'[q := v], ob, k'))"
    if q: "q < length h" for q v
  proof -
    have "RowEchelonObject_reset_loop (obj\<lparr>ro_matrix := length h\<rparr>) ((h @ [m])[q := v]) rnd (Suc k)
            = Some (Inr (obj', h2[q := v], k'))"
      using 5[of q v] q by simp
    moreover have "q \<noteq> ro_matrix obj'" "q < length h2"
      using 4 q 1 by auto
    ultimately show ?thesis
      using m q h' ob 3
      by (simp add: RowEchelonObject_reset_def np_new_def np_copy_def list_update_append1)
  qed
  from 1 3 4 h' ob t f show ?thesis
    by (auto simp: nth_append)
qed

section \<open>Pivoting until the matrix is reduced\<close>

lemma lead_from_Some:
  "lead_from k r = Some l \<Longrightarrow> k \<le> l \<and> l < k + length r \<and> r ! (l - k) \<noteq> 0
     \<and> (\<forall>j < l - k. r ! j = 0)"
proof (induction r arbitrary: k)
  case Nil
  then show ?case by simp
next
  case (Cons x xs)
  show ?case
  proof (cases "x \<noteq> 0")
    case True
    with Cons.prems show ?thesis by simp
  next
    case False
    with Cons.prems have "lead_from (Suc k) xs = Some l" by simp
    from Cons.IH[OF this] have
      1: "Suc k \<le> l" "l < Suc k + length xs" "xs ! (l - Suc k) \<noteq> 0"
      "\<forall>j < l - Suc k. xs ! j = 0"
      by auto
    have "l - k = Suc (l - Suc k)" using 1(1) by simp
    with 1 False show ?thesis
      by (auto simp: nth_Cons split: nat.splits)
  qed
qed

lemma lead_of_Some:
  "lead_of r = Some l \<Longrightarrow> l < length r \<and> r ! l \<noteq> 0 \<and> (\<forall>j < l. r ! j = 0)"
  using lead_from_Some[of 0 r l] by (simp add: lead_of_def)

lemma lead_from_first:
  "l < length r \<Longrightarrow> r ! l \<noteq> 0 \<Longrightarrow> \<forall>j < l. r ! j = 0 \<Longrightarrow> lead_from k r = Some (k + l)"
proof (induction r arbitrary: k l)
  case Nil
  then show ?case by simp
next
  case (Cons x xs)
  show ?case
  proof (cases l)
    case 0
    with Cons.prems show ?thesis by simp
  next
    case (Suc l')
    with Cons.prems have "x = 0" by auto
    moreover have "lead_from (Suc k) xs = Some (Suc k + l')"
      using Cons.prems Suc by (intro Cons.IH) auto
    ultimately show ?thesis using Suc by simp
  qed
qed

lemma lead_of_first:
  "l < length r \<Longrightarrow> r ! l \<noteq> 0 \<Longrightarrow> \<forall>j < l. r ! j = 0 \<Longrightarrow> lead_of r = Some l"
  using lead_from_first[of l r 0] by (simp add: lead_of_def)

lemma lead_from_None: "lead_from k r = None \<Longrightarrow> \<forall>x \<in> set r. x = 0"
  by (induction r arbitrary: k) (auto split: if_splits)

lemma lead_of_None: "lead_of r = None \<Longrightarrow> j < length r \<Longrightarrow> r ! j = 0"
  using lead_from_None[of 0 r] by (simp add: lead_of_def)

lemma reduced_loop_settled:
  assumes sh: "has_shape n k m"
  shows "\<forall>r \<in> set ks. r < n \<Longrightarrow> reduced_loop m n ks = Inr (\<forall>r \<in> set ks. settled m n r)"
proof (induction ks)
  case Nil
  then show ?case by simp
next
  case (Cons row rest)
  then have row: "row < length m" and IH: "reduced_loop m n rest = Inr (\<forall>r \<in> set rest. settled m n r)"
    using sh by (auto simp: has_shape_def)
  show ?case
  proof (cases "lead_of (m ! row)")
    case None
    with row IH show ?thesis by (simp add: row_at_nat settled_def)
  next
    case (Some l)
    then have "l < k" using lead_of_bound[of "m ! row" l] sh row by (auto simp: has_shape_def)
    then have "\<forall>i \<in> set [0..<n]. i < length m \<and> l < length (m ! i)"
      using sh by (auto simp: has_shape_def)
    from column_clear_eval[OF this, of row] Some row IH show ?thesis
      by (auto simp: row_at_nat settled_def)
  qed
qed

lemma is_reduced_settled:
  "has_shape n k m \<Longrightarrow> is_reduced m n = Inr (\<forall>r < n. settled m n r)"
  using reduced_loop_settled[of n k m "[0..<n]"] by (auto simp: is_reduced_def)

lemma length_add_rows_mod: "length (add_rows_mod f a b) = min (length a) (length b)"
  by (simp add: add_rows_mod_def)

lemma nth_add_rows_mod:
  "j < length a \<Longrightarrow> j < length b \<Longrightarrow> add_rows_mod f a b ! j = np_mod (a ! j + b ! j) f"
  by (simp add: add_rows_mod_def)

lemma has_shape_update:
  "has_shape n k m \<Longrightarrow> length r = k \<Longrightarrow> has_shape n k (m[i := r])"
  unfolding has_shape_def using set_update_subset_insert[of m i r] by auto

lemma has_shape_nth: "has_shape n k m \<Longrightarrow> i < n \<Longrightarrow> length (m ! i) = k"
  by (simp add: has_shape_def)

lemma pivot_loop_rows:
  assumes a: "a < n" and l: "l < k"
  shows "has_shape n k m \<Longrightarrow> distinct ks \<Longrightarrow> \<forall>i \<in> set ks. i < n \<Longrightarrow>
     \<exists>m' mv'. pivot_loop (int a) l ks m mv = Inr (m', mv') \<and> has_shape n k m'
       \<and> (\<forall>i < n. m' ! i = (if i \<in> set ks \<and> i \<noteq> a \<and> m ! i ! l \<noteq> 0
                              then add_rows_mod 2 (m ! i) (m ! a) else m ! i))
       \<and> (mv' = mv \<longleftrightarrow> (\<forall>i \<in> set ks. i = a \<or> m ! i ! l = 0))
       \<and> mv \<le> mv'"
proof (induction ks arbitrary: m mv)
  case Nil
  then show ?case by simp
next
  case (Cons i rest)
  have sh: "has_shape n k m" by fact
  have len: "length m = n" using sh by (simp add: has_shape_def)
  have i: "i < n" "i \<notin> set rest" "distinct rest" "\<forall>j \<in> set rest. j < n"
    using Cons.prems by auto
  show ?case
  proof (cases "i = a \<or> m ! i ! l = 0")
    case True
    from Cons.IH[OF sh i(3,4), of mv] obtain m' mv' where
      r: "pivot_loop (int a) l rest m mv = Inr (m', mv')" "has_shape n k m'"
         "\<forall>j < n. m' ! j = (if j \<in> set rest \<and> j \<noteq> a \<and> m ! j ! l \<noteq> 0
                              then add_rows_mod 2 (m ! j) (m ! a) else m ! j)"
         "mv' = mv \<longleftrightarrow> (\<forall>j \<in> set rest. j = a \<or> m ! j ! l = 0)" "mv \<le> mv'"
      by blast
    have "pivot_loop (int a) l (i # rest) m mv = Inr (m', mv')"
      using True r(1) i(1) len l has_shape_nth[OF sh i(1)]
      by (auto simp: entry_at_nat)
    moreover have "\<forall>j < n. m' ! j = (if j \<in> set (i # rest) \<and> j \<noteq> a \<and> m ! j ! l \<noteq> 0
                              then add_rows_mod 2 (m ! j) (m ! a) else m ! j)"
      using r(3) True by auto
    moreover have "mv' = mv \<longleftrightarrow> (\<forall>j \<in> set (i # rest). j = a \<or> m ! j ! l = 0)"
      using r(4) True by auto
    ultimately show ?thesis using r(2,5) by blast
  next
    case False
    then have ia: "i \<noteq> a" and nz: "m ! i ! l \<noteq> 0" by auto
    let ?m1 = "m[i := add_rows_mod 2 (m ! i) (m ! a)]"
    have sh1: "has_shape n k ?m1"
      using sh a i(1) by (intro has_shape_update) (simp_all add: length_add_rows_mod has_shape_nth)
    from Cons.IH[OF sh1 i(3,4), of "mv + 1"] obtain m' mv' where
      r: "pivot_loop (int a) l rest ?m1 (mv + 1) = Inr (m', mv')" "has_shape n k m'"
         "\<forall>j < n. m' ! j = (if j \<in> set rest \<and> j \<noteq> a \<and> ?m1 ! j ! l \<noteq> 0
                              then add_rows_mod 2 (?m1 ! j) (?m1 ! a) else ?m1 ! j)"
         "mv + 1 \<le> mv'"
      by blast
    have "pivot_loop (int a) l (i # rest) m mv = Inr (m', mv')"
      using ia nz r(1) i(1) a len l has_shape_nth[OF sh i(1)]
      by (simp add: entry_at_nat row_at_nat)
    moreover have "\<forall>j < n. m' ! j = (if j \<in> set (i # rest) \<and> j \<noteq> a \<and> m ! j ! l \<noteq> 0
                              then add_rows_mod 2 (m ! j) (m ! a) else m ! j)"
    proof (intro allI impI)
      fix j assume j: "j < n"
      show "m' ! j = (if j \<in> set (i # rest) \<and> j \<noteq> a \<and> m ! j ! l \<noteq> 0
                              then add_rows_mod 2 (m ! j) (m ! a) else m ! j)"
      proof (cases "j = i")
        case True
        with r(3) j i(2) ia nz len show ?thesis by simp
      next
        case False
        with r(3) j ia show ?thesis by simp
      qed
    qed
    moreover have "mv' = mv \<longleftrightarrow> (\<forall>j \<in> set (i # rest). j = a \<or> m ! j ! l = 0)"
      using r(4) ia nz by auto
    ultimately show ?thesis using r(2,4) by auto
  qed
qed

lemma binary_nth:
  assumes "binary m" "i < length m" "j < length (m ! i)"
  shows "m ! i ! j = 0 \<or> m ! i ! j = 1"
proof -
  have "m ! i \<in> set m" using assms(2) by (rule nth_mem)
  moreover have "m ! i ! j \<in> set (m ! i)" using assms(3) by (rule nth_mem)
  ultimately show ?thesis using assms(1) unfolding binary_def by fast
qed

lemma pivot_settles:
  assumes sh: "has_shape n k m" and bin: "binary m" and a: "a < n"
    and ld: "lead_of (m ! a) = Some l"
    and sh': "has_shape n k m'"
    and rows: "\<forall>i < n. m' ! i = (if i \<noteq> a \<and> m ! i ! l \<noteq> 0
                                   then add_rows_mod 2 (m ! i) (m ! a) else m ! i)"
  shows "settled m' n a" and "\<forall>p < n. settled m n p \<longrightarrow> settled m' n p"
proof -
  have len: "length m = n" "length m' = n" using sh sh' by (simp_all add: has_shape_def)
  have rl: "\<And>i. i < n \<Longrightarrow> length (m ! i) = k" using sh by (simp add: has_shape_nth)
  from lead_of_Some[OF ld] rl[OF a] have
    l: "l < k" and al: "m ! a ! l \<noteq> 0" and az: "\<forall>j < l. m ! a ! j = 0"
    by auto
  have b01: "\<And>i j. i < n \<Longrightarrow> j < k \<Longrightarrow> m ! i ! j = 0 \<or> m ! i ! j = 1"
    using binary_nth[OF bin] len rl by simp
  have ent: "m' ! i ! j = (if i \<noteq> a \<and> m ! i ! l \<noteq> 0 then (m ! i ! j + m ! a ! j) mod 2 else m ! i ! j)"
    if "i < n" "j < k" for i j
    using that rows rl a by (simp add: nth_add_rows_mod np_mod_def)
  have a1: "m ! a ! l = 1" using b01[OF a l] al by simp
  have ra: "m' ! a = m ! a" using rows a by simp
  show "settled m' n a"
  proof -
    have "m' ! i ! l = 0" if "i < n" "i \<noteq> a" for i
    proof (cases "m ! i ! l = 0")
      case True
      with ent[OF that(1) l] show ?thesis by simp
    next
      case False
      then have "m ! i ! l = 1" using b01[OF that(1) l] by simp
      with ent[OF that(1) l] that(2) a1 show ?thesis by simp
    qed
    then show ?thesis using ra ld by (simp add: settled_def)
  qed
  show "\<forall>p < n. settled m n p \<longrightarrow> settled m' n p"
  proof (intro allI impI)
    fix p assume p: "p < n" and st: "settled m n p"
    show "settled m' n p"
    proof (cases "p = a")
      case True
      with \<open>settled m' n a\<close> show ?thesis by simp
    next
      case pa: False
      show ?thesis
      proof (cases "lead_of (m ! p)")
        case None
        then have "m ! p ! l = 0" using lead_of_None[of "m ! p" l] rl[OF p] l by simp
        then have "m' ! p = m ! p" using rows p by simp
        with None show ?thesis by (simp add: settled_def)
      next
        case (Some c)
        from lead_of_Some[OF Some] rl[OF p] have
          c: "c < k" and pc: "m ! p ! c \<noteq> 0" and pz: "\<forall>j < c. m ! p ! j = 0"
          by auto
        from st Some have clear: "\<forall>i < n. i \<noteq> p \<longrightarrow> m ! i ! c = 0"
          by (simp add: settled_def)
        then have ac: "m ! a ! c = 0" using a pa by simp
        have pc1: "m ! p ! c = 1" using b01[OF p c] pc by simp
        have col: "m' ! i ! c = 0" if "i < n" "i \<noteq> p" for i
          using ent[OF that(1) c] clear that ac by simp
        have "lead_of (m' ! p) = Some c"
        proof (rule lead_of_first)
          show "c < length (m' ! p)" using sh' p c by (simp add: has_shape_nth)
          show "m' ! p ! c \<noteq> 0" using ent[OF p c] pc1 ac by simp
          show "\<forall>j < c. m' ! p ! j = 0"
          proof (intro allI impI)
            fix j assume j: "j < c"
            then have jk: "j < k" using c by simp
            show "m' ! p ! j = 0"
            proof (cases "m ! p ! l = 0")
              case True
              with ent[OF p jk] pz j show ?thesis by simp
            next
              case False
              then have "\<not> l < c" using pz by auto
              moreover have "l \<noteq> c" using ac al by auto
              ultimately have "j < l" using j by simp
              then have "m ! a ! j = 0" using az by simp
              with ent[OF p jk] pz j show ?thesis by simp
            qed
          qed
        qed
        with col show ?thesis by (simp add: settled_def)
      qed
    qed
  qed
qed

lemma RowChoice_step_pivot:
  assumes sh: "has_shape (rc_N env) (rc_M env) (rc_matrix env)"
    and a: "a < rc_N env" and ld: "lead_of (rc_matrix env ! a) = Some l"
  shows "\<exists>m' r. RowChoice_step env (int a)
            = Inr (env\<lparr>rc_matrix := m'\<rparr>, m', r, \<forall>p < rc_N env. settled m' (rc_N env) p)
          \<and> has_shape (rc_N env) (rc_M env) m'
          \<and> (\<forall>i < rc_N env. m' ! i = (if i \<noteq> a \<and> rc_matrix env ! i ! l \<noteq> 0
                 then add_rows_mod 2 (rc_matrix env ! i) (rc_matrix env ! a)
                 else rc_matrix env ! i))"
proof -
  let ?m = "rc_matrix env" and ?n = "rc_N env" and ?k = "rc_M env"
  have len: "length ?m = ?n" using sh by (simp add: has_shape_def)
  have l: "l < ?k" using lead_of_bound[OF ld] has_shape_nth[OF sh a] by simp
  from pivot_loop_rows[OF a l sh, of "[0..<?n]" 0] obtain m' mv' where
    r: "pivot_loop (int a) l [0..<?n] ?m 0 = Inr (m', mv')" "has_shape ?n ?k m'"
       "\<forall>i < ?n. m' ! i = (if i \<in> set [0..<?n] \<and> i \<noteq> a \<and> ?m ! i ! l \<noteq> 0
                              then add_rows_mod 2 (?m ! i) (?m ! a) else ?m ! i)"
    by auto
  have ra: "row_at ?m (int a) = Inr (?m ! a)" using a len by (simp add: row_at_nat)
  have "RowChoice_step env (int a)
          = Inr (env\<lparr>rc_matrix := m'\<rparr>, m', if mv' = 0 then - 100 else - int mv',
                 \<forall>p < ?n. settled m' ?n p)"
    using ra ld r(1) is_reduced_settled[OF r(2)] by (simp add: RowChoice_step_def)
  with r(2,3) show ?thesis by auto
qed

lemma RowChoice_run_length:
  "RowChoice_run env as = Inr (env', rs) \<Longrightarrow> length rs = length as"
proof (induction as arbitrary: env rs)
  case Nil
  then show ?case by simp
next
  case (Cons a as)
  from Cons.prems obtain e1 ob r d rs' where
    "RowChoice_run e1 as = Inr (env', rs')" and "rs = (r, d) # rs'"
    by (auto split: sum.splits prod.splits)
  with Cons.IH show ?case by auto
qed

lemma RowChoice_can_finish:
  "has_shape (rc_N env) (rc_M env) (rc_matrix env) \<Longrightarrow> binary (rc_matrix env) \<Longrightarrow>
   card {p. p < rc_N env \<and> \<not> settled (rc_matrix env) (rc_N env) p} = u \<Longrightarrow> 0 < u \<Longrightarrow>
   \<exists>as env' rs. as \<noteq> [] \<and> length as \<le> u \<and> (\<forall>a \<in> set as. 0 \<le> a \<and> a < int (rc_N env))
      \<and> RowChoice_run env as = Inr (env', rs) \<and> snd (last rs)"
proof (induction u arbitrary: env rule: less_induct)
  case (less u)
  let ?n = "rc_N env" and ?k = "rc_M env" and ?m = "rc_matrix env"
  let ?U = "{p. p < ?n \<and> \<not> settled ?m ?n p}"
  have finU: "finite ?U" by simp
  from less.prems(3,4) have "card ?U \<noteq> 0" by simp
  then have "?U \<noteq> {}" by (metis card.empty)
  then obtain a where a: "a < ?n" and ns: "\<not> settled ?m ?n a" by auto
  from ns obtain l where ld: "lead_of (?m ! a) = Some l"
    by (auto simp: settled_def split: option.splits)
  from RowChoice_step_pivot[OF less.prems(1) a ld] obtain m' r where
    st: "RowChoice_step env (int a)
            = Inr (env\<lparr>rc_matrix := m'\<rparr>, m', r, \<forall>p < ?n. settled m' ?n p)"
    and sh': "has_shape ?n ?k m'"
    and rows: "\<forall>i < ?n. m' ! i = (if i \<noteq> a \<and> ?m ! i ! l \<noteq> 0
                 then add_rows_mod 2 (?m ! i) (?m ! a) else ?m ! i)"
    by blast
  note ps = pivot_settles[OF less.prems(1,2) a ld sh' rows]
  have bin': "binary m'"
    using RowChoice_step_binary[OF st less.prems(2)] by simp
  let ?env1 = "env\<lparr>rc_matrix := m'\<rparr>"
  let ?U' = "{p. p < ?n \<and> \<not> settled m' ?n p}"
  have sub: "?U' \<subseteq> ?U - {a}" using ps by auto
  have "a \<in> ?U" using a ns by simp
  then have "card (?U - {a}) < card ?U" using finU by (intro card_Diff1_less) auto
  moreover have "card ?U' \<le> card (?U - {a})" using sub finU by (intro card_mono) auto
  ultimately have lt: "card ?U' < u" using less.prems(3) by simp
  show ?case
  proof (cases "\<forall>p < ?n. settled m' ?n p")
    case True
    with st have "RowChoice_run env [int a] = Inr (?env1, [(r, True)])" by simp
    moreover have "length [int a] \<le> u" using less.prems(4) by simp
    ultimately show ?thesis using a
      by (intro exI[of _ "[int a]"] exI[of _ ?env1] exI[of _ "[(r, True)]"]) simp
  next
    case False
    then have "?U' \<noteq> {}" by auto
    then have pos: "0 < card ?U'" by (simp add: card_gt_0_iff)
    have "\<exists>as env' rs. as \<noteq> [] \<and> length as \<le> card ?U'
        \<and> (\<forall>a \<in> set as. 0 \<le> a \<and> a < int (rc_N ?env1))
        \<and> RowChoice_run ?env1 as = Inr (env', rs) \<and> snd (last rs)"
      using sh' bin' pos by (intro less.IH[OF lt]) simp_all
    then obtain as env' rs where
      as: "as \<noteq> []" "length as \<le> card ?U'" "\<forall>a \<in> set as. 0 \<le> a \<and> a < int ?n"
          "RowChoice_run ?env1 as = Inr (env', rs)" "snd (last rs)"
      by auto
    have "rs \<noteq> []" using RowChoice_run_length[OF as(4)] as(1) by auto
    then have "snd (last ((r, False) # rs))" using as(5) by simp
    moreover have "RowChoice_run env (int a # as) = Inr (env', (r, False) # rs)"
      using st False as(4) by simp
    moreover have "length (int a # as) \<le> u" using as(2) lt by simp
    moreover have "\<forall>b \<in> set (int a # as). 0 \<le> b \<and> b < int ?n" using as(3) a by simp
    ultimately show ?thesis
      by (intro exI[of _ "int a # as"] exI[of _ env'] exI[of _ "(r, False) # rs"]) simp
  qed
qed

lemma RowChoice_can_reach_done:
  assumes sh: "has_shape (rc_N env) (rc_M env) (rc_matrix env)" and bin: "binary (rc_matrix env)"
    and nr: "is_reduced (rc_matrix env) (rc_N env) = Inr False"
  shows "\<exists>as env' rs. as \<noteq> [] \<and> length as \<le> rc_N env
      \<and> (\<forall>a \<in> set as. 0 \<le> a \<and> a < int (rc_N env))
      \<and> RowChoice_run env as = Inr (env', rs) \<and> snd (last rs)"
proof -
  let ?U = "{p. p < rc_N env \<and> \<not> settled (rc_matrix env) (rc_N env) p}"
  from nr is_reduced_settled[OF sh] have "?U \<noteq> {}" by auto
  then have pos: "0 < card ?U" by (simp add: card_gt_0_iff)
  have "card ?U \<le> card {..<rc_N env}" by (intro card_mono) auto
  then have le: "card ?U \<le> rc_N env" by simp
  from RowChoice_can_finish[OF sh bin refl pos] obtain as env' rs where
    "as \<noteq> []" "length as \<le> card ?U" "\<forall>a \<in> set as. 0 \<le> a \<and> a < int (rc_N env)"
    "RowChoice_run env as = Inr (env', rs)" "snd (last rs)"
    by blast
  with le show ?thesis
    by (intro exI[of _ as] exI[of _ env'] exI[of _ rs]) simp
qed

lemma has_shape_np_zeros: "has_shape n k (np_zeros n k)"
  by (simp add: has_shape_def np_zeros_def)

lemma has_shape_threshold_matrix: "has_shape n k (threshold_matrix n k density u)"
  by (auto simp: has_shape_def threshold_matrix_def)

lemma pivot_loop_shape:
  "pivot_loop a l ks m moves = Inr (m', moves') \<Longrightarrow> has_shape n k m \<Longrightarrow> has_shape n k m'"
proof (induction ks arbitrary: m moves)
  case Nil
  then show ?case by simp
next
  case (Cons i rest)
  show ?case
  proof (cases "int i \<noteq> a")
    case False
    with Cons show ?thesis by simp
  next
    case True
    note ne = this
    show ?thesis
    proof (cases "entry_at m (int i) l")
      case (Inl e)
      with Cons.prems ne show ?thesis by simp
    next
      case (Inr x)
      show ?thesis
      proof (cases "x \<noteq> 0")
        case False
        with Cons Inr ne show ?thesis by simp
      next
        case True
        with Cons.prems(1) Inr ne obtain ri ra where
          ri: "row_at m (int i) = Inr ri" and ra: "row_at m a = Inr ra" and
          rec: "pivot_loop a l rest (m[i := add_rows_mod 2 ri ra]) (moves + 1) = Inr (m', moves')"
          by (auto split: sum.splits)
        have "length ri = k" "length ra = k"
          using row_at_mem[OF ri] row_at_mem[OF ra] Cons.prems(2) by (auto simp: has_shape_def)
        then have "has_shape n k (m[i := add_rows_mod 2 ri ra])"
          using Cons.prems(2) by (intro has_shape_update) (simp_all add: length_add_rows_mod)
        with rec show ?thesis by (rule Cons.IH)
      qed
    qed
  qed
qed

lemma RowChoice_step_shape:
  "RowChoice_step env a = Inr (env', ob, r, d) \<Longrightarrow>
     has_shape (rc_N env) (rc_M env) (rc_matrix env) \<Longrightarrow>
     has_shape (rc_N env') (rc_M env') (rc_matrix env')"
  by (auto simp: RowChoice_step_def split: sum.splits option.splits prod.splits if_splits
        dest: pivot_loop_shape)

lemma RowChoice_reset_loop_shape:
  assumes "RowChoice_reset_loop env rnd k = Some y"
  shows "has_shape (rc_N env) (rc_M env) (rc_matrix env) \<longrightarrow>
           (\<forall>env' k'. y = Inr (env', k') \<longrightarrow> has_shape (rc_N env') (rc_M env') (rc_matrix env'))"
proof (rule RowChoice_reset_loop.raw_induct[where P = "\<lambda>env rnd k y.
          has_shape (rc_N env) (rc_M env) (rc_matrix env) \<longrightarrow>
           (\<forall>env' k'. y = Inr (env', k') \<longrightarrow> has_shape (rc_N env') (rc_M env') (rc_matrix env'))",
        OF _ assms])
  fix loop :: "RowChoiceEnvironment \<Rightarrow> (nat \<Rightarrow> nat \<Rightarrow> nat \<Rightarrow> real) \<Rightarrow> nat
     \<Rightarrow> (py_error + (RowChoiceEnvironment \<times> nat)) option"
    and env rnd k y
  assume IH: "\<And>env rnd k y. loop env rnd k = Some y \<Longrightarrow>
      has_shape (rc_N env) (rc_M env) (rc_matrix env) \<longrightarrow>
           (\<forall>env' k'. y = Inr (env', k') \<longrightarrow> has_shape (rc_N env') (rc_M env') (rc_matrix env'))"
  assume body: "(case is_reduced (rc_matrix env) (rc_N env) of
        Inl e \<Rightarrow> Some (Inl e)
      | Inr b \<Rightarrow>
          if b then
            loop (env\<lparr>rc_matrix := RowChoice_random_matrix env (rnd k)\<rparr>) rnd (Suc k)
          else Some (Inr (env, k))) = Some y"
  show "has_shape (rc_N env) (rc_M env) (rc_matrix env) \<longrightarrow>
           (\<forall>env' k'. y = Inr (env', k') \<longrightarrow> has_shape (rc_N env') (rc_M env') (rc_matrix env'))"
  proof (cases "is_reduced (rc_matrix env) (rc_N env)")
    case (Inl e)
    with body show ?thesis by auto
  next
    case (Inr b)
    show ?thesis
    proof (cases b)
      case True
      with body Inr have
        "loop (env\<lparr>rc_matrix := RowChoice_random_matrix env (rnd k)\<rparr>) rnd (Suc k) = Some y"
        by simp
      from IH[OF this] show ?thesis
        by (simp add: RowChoice_random_matrix_def has_shape_threshold_matrix)
    next
      case False
      with body Inr show ?thesis by auto
    qed
  qed
qed

lemma RowChoice_reachable_shape:
  "RowChoice_reachable env \<Longrightarrow> has_shape (rc_N env) (rc_M env) (rc_matrix env)"
proof (induction rule: RowChoice_reachable.induct)
  case (rc_init shape density)
  show ?case by (simp add: RowChoice_init_def has_shape_np_zeros)
next
  case (rc_reset env rnd k env' ob k')
  from rc_reset.hyps(2) have
    "RowChoice_reset_loop (env\<lparr>rc_matrix := RowChoice_random_matrix env (rnd k)\<rparr>) rnd (Suc k)
      = Some (Inr (env', k'))"
    by (auto simp: RowChoice_reset_def split: sum.splits option.splits)
  from RowChoice_reset_loop_shape[OF this] show ?case
    by (simp add: RowChoice_random_matrix_def has_shape_threshold_matrix)
next
  case (rc_step env a env' ob r d)
  then show ?case using RowChoice_step_shape by blast
qed

lemma RowChoice_reachable_binary:
  "RowChoice_reachable env \<Longrightarrow> binary (rc_matrix env)"
proof (induction rule: RowChoice_reachable.induct)
  case (rc_init shape density)
  show ?case by (simp add: RowChoice_init_def binary_np_zeros)
next
  case (rc_reset env rnd k env' ob k')
  then show ?case using RowChoice_reset_binary by blast
next
  case (rc_step env a env' ob r d)
  then show ?case using RowChoice_step_binary by blast
qed

section \<open>Episodes that end and episodes that never end\<close>

text \<open>
  Claim C1 as stated fails. \<open>reset\<close> can leave \<open>RowChoiceEnvironment\<close> with the matrix
  \<open>[[1, 1], [0, 1]]\<close>, where the valid action \<open>0\<close> returns the same state with
  \<open>done = False\<close>, and \<open>RowEchelonEnvironment\<close> over \<open>F = 2\<close> with \<open>[[0, 1], [1, 0]]\<close>,
  where the valid action \<open>2\<close> (add row 1 to row 0) leads to \<open>[[1, 1], [1, 0]]\<close> and from
  there back, \<open>done = False\<close> both times: these action sequences never end.
\<close>

theorem step_need_not_terminate_counterexample:
  "RowChoice_reset (RowChoice_init (2, 2) (1 / 2)) (\<lambda>k i j. if i = 1 \<and> j = 0 then 0 else 9 / 10) 0
     = Some (Inr (\<lparr>rc_N = 2, rc_M = 2, rc_density = 1 / 2, rc_matrix = [[1, 1], [0, 1]]\<rparr>,
                  [[1, 1], [0, 1]], 1))
   \<and> RowChoice_step \<lparr>rc_N = 2, rc_M = 2, rc_density = 1 / 2, rc_matrix = [[1, 1], [0, 1]]\<rparr> 0
     = Inr (\<lparr>rc_N = 2, rc_M = 2, rc_density = 1 / 2, rc_matrix = [[1, 1], [0, 1]]\<rparr>,
            [[1, 1], [0, 1]], - 100, False)
   \<and> RowEchelon_reset (RowEchelon_init (2, 2) 2) (\<lambda>k i j. if k = 0 then 0 else if i = j then 0 else 1) 0
     = Some (Inr ((RowEchelon_init (2, 2) 2)\<lparr>re_matrix := [[0, 1], [1, 0]]\<rparr>, [[0, 1], [1, 0]], 2))
   \<and> RowEchelon_step ((RowEchelon_init (2, 2) 2)\<lparr>re_matrix := [[0, 1], [1, 0]]\<rparr>) 2
     = Inr ((RowEchelon_init (2, 2) 2)\<lparr>re_matrix := [[1, 1], [1, 0]]\<rparr>, [[1, 1], [1, 0]], - 1, False)
   \<and> RowEchelon_step ((RowEchelon_init (2, 2) 2)\<lparr>re_matrix := [[1, 1], [1, 0]]\<rparr>) 2
     = Inr ((RowEchelon_init (2, 2) 2)\<lparr>re_matrix := [[0, 1], [1, 0]]\<rparr>, [[0, 1], [1, 0]], - 1, False)"
  by code_simp

text \<open>
  Claim C1, amended. Whether an episode ends depends on the actions. In
  \<open>RowChoiceEnvironment\<close>, from every reachable state that is not reduced some sequence
  of at most \<open>N\<close> actions in \<open>[0, N)\<close> ends with \<open>done = True\<close>; but at a state that is
  not reduced an action in \<open>[0, N)\<close> whose row is zero, or whose lead column is zero in
  every other row, returns \<open>done = False\<close> and the same state however often it is
  repeated. In \<open>RowEchelonEnvironment\<close>, at a state that is not in row echelon form, a
  swap whose result is not in row echelon form either alternates between the two states,
  \<open>done = False\<close> at every step.
\<close>

theorem termination_depends_on_the_actions:
  "(RowChoice_reachable env0 \<and> is_reduced (rc_matrix env0) (rc_N env0) = Inr False
    \<longrightarrow> (\<exists>as env' rs. as \<noteq> [] \<and> length as \<le> rc_N env0
            \<and> (\<forall>a \<in> set as. 0 \<le> a \<and> a < int (rc_N env0))
            \<and> RowChoice_run env0 as = Inr (env', rs) \<and> snd (last rs)))
   \<and> (has_shape (rc_N env) (rc_M env) (rc_matrix env) \<and> 0 \<le> a \<and> a < int (rc_N env)
      \<and> (lead_of (rc_matrix env ! nat a) = None \<or>
           (\<exists>l. lead_of (rc_matrix env ! nat a) = Some l \<and>
                (\<forall>i < rc_N env. i \<noteq> nat a \<longrightarrow> rc_matrix env ! i ! l = 0)))
      \<and> is_reduced (rc_matrix env) (rc_N env) = Inr False
    \<longrightarrow> (\<forall>n. RowChoice_run env (replicate n a) = Inr (env, replicate n (- 100, False))))
   \<and> (re_wf renv \<and> 0 \<le> b \<and> b < int (re_action_size renv)
      \<and> fst (re_action_tuples renv ! nat b) \<noteq> ''add''
      \<and> is_row_echelon renv = Inr False
      \<and> RowEchelon_step renv b = Inr (renv1, ob, r, False)
    \<longrightarrow> (\<forall>n. RowEchelon_run renv (replicate n b)
               = Inr (if even n then renv else renv1, replicate n (- 1, False))))"
proof (intro conjI impI allI)
  assume h: "RowChoice_reachable env0 \<and> is_reduced (rc_matrix env0) (rc_N env0) = Inr False"
  then show "\<exists>as env' rs. as \<noteq> [] \<and> length as \<le> rc_N env0
            \<and> (\<forall>a \<in> set as. 0 \<le> a \<and> a < int (rc_N env0))
            \<and> RowChoice_run env0 as = Inr (env', rs) \<and> snd (last rs)"
    using RowChoice_can_reach_done[of env0] RowChoice_reachable_shape[of env0]
      RowChoice_reachable_binary[of env0]
    by blast
next
  fix n
  assume h: "has_shape (rc_N env) (rc_M env) (rc_matrix env) \<and> 0 \<le> a \<and> a < int (rc_N env)
      \<and> (lead_of (rc_matrix env ! nat a) = None \<or>
           (\<exists>l. lead_of (rc_matrix env ! nat a) = Some l \<and>
                (\<forall>i < rc_N env. i \<noteq> nat a \<longrightarrow> rc_matrix env ! i ! l = 0)))
      \<and> is_reduced (rc_matrix env) (rc_N env) = Inr False"
  then have "RowChoice_step env a = Inr (env, rc_matrix env, - 100, False)"
    using RowChoice_step_noop[of env a] by auto
  then show "RowChoice_run env (replicate n a) = Inr (env, replicate n (- 100, False))"
    by (rule RowChoice_run_fixed)
next
  fix n
  assume h: "re_wf renv \<and> 0 \<le> b \<and> b < int (re_action_size renv)
      \<and> fst (re_action_tuples renv ! nat b) \<noteq> ''add''
      \<and> is_row_echelon renv = Inr False
      \<and> RowEchelon_step renv b = Inr (renv1, ob, r, False)"
  then have ret: "RowEchelon_step renv1 b = Inr (renv, re_matrix renv, - 1, False)"
    using RowEchelon_swap_back[of renv b False renv1 ob r False] by blast
  from h have "RowEchelon_step renv b = Inr (renv1, ob, r, False)" by simp
  from RowEchelon_run_two_cycle[OF this ret, of n]
  show "RowEchelon_run renv (replicate n b)
          = Inr (if even n then renv else renv1, replicate n (- 1, False))"
    by simp
qed

theorem termination_depends_on_the_actions_witness:
  "RowChoice_reachable \<lparr>rc_N = 2, rc_M = 2, rc_density = 1 / 2, rc_matrix = [[1, 1], [0, 1]]\<rparr>
   \<and> has_shape 2 2 [[1, 1], [0, 1]]
   \<and> lead_of ([[1, 1], [0, 1]] ! nat 0) = Some 0
   \<and> [[1, 1], [0, 1 :: int]] ! 1 ! 0 = 0
   \<and> is_reduced [[1, 1], [0, 1]] 2 = Inr False
   \<and> (\<exists>as env' rs. as \<noteq> [] \<and> length as \<le> 2
          \<and> (\<forall>a \<in> set as. 0 \<le> a \<and> a < 2)
          \<and> RowChoice_run \<lparr>rc_N = 2, rc_M = 2, rc_density = 1 / 2, rc_matrix = [[1, 1], [0, 1]]\<rparr> as
               = Inr (env', rs)
          \<and> snd (last rs))
   \<and> RowChoice_run \<lparr>rc_N = 2, rc_M = 2, rc_density = 1 / 2, rc_matrix = [[1, 1], [0, 1]]\<rparr>
        (replicate 3 0)
      = Inr (\<lparr>rc_N = 2, rc_M = 2, rc_density = 1 / 2, rc_matrix = [[1, 1], [0, 1]]\<rparr>,
             replicate 3 (- 100, False))
   \<and> re_wf ((RowEchelon_init (3, 2) 2)\<lparr>re_matrix := [[0, 1], [1, 0], [1, 1]]\<rparr>)
   \<and> fst (re_action_tuples ((RowEchelon_init (3, 2) 2)\<lparr>re_matrix := [[0, 1], [1, 0], [1, 1]]\<rparr>) ! nat 0)
       = ''swap''
   \<and> is_row_echelon ((RowEchelon_init (3, 2) 2)\<lparr>re_matrix := [[0, 1], [1, 0], [1, 1]]\<rparr>) = Inr False
   \<and> RowEchelon_step ((RowEchelon_init (3, 2) 2)\<lparr>re_matrix := [[0, 1], [1, 0], [1, 1]]\<rparr>) 0
       = Inr ((RowEchelon_init (3, 2) 2)\<lparr>re_matrix := [[1, 0], [0, 1], [1, 1]]\<rparr>,
              [[1, 0], [0, 1], [1, 1]], - 1, False)
   \<and> RowEchelon_run ((RowEchelon_init (3, 2) 2)\<lparr>re_matrix := [[0, 1], [1, 0], [1, 1]]\<rparr>)
        (replicate 3 0)
       = Inr ((RowEchelon_init (3, 2) 2)\<lparr>re_matrix := [[1, 0], [0, 1], [1, 1]]\<rparr>,
              replicate 3 (- 1, False))"
proof -
  let ?c = "\<lparr>rc_N = 2, rc_M = 2, rc_density = 1 / 2, rc_matrix = [[1, 1], [0, 1]]\<rparr>"
  let ?e = "(RowEchelon_init (3, 2) 2)\<lparr>re_matrix := [[0, 1], [1, 0], [1, 1]]\<rparr>"
  let ?e1 = "(RowEchelon_init (3, 2) 2)\<lparr>re_matrix := [[1, 0], [0, 1], [1, 1]]\<rparr>"
  have "RowChoice_reset (RowChoice_init (2, 2) (1 / 2)) (\<lambda>k i j. if i = 1 \<and> j = 0 then 0 else 9 / 10) 0
     = Some (Inr (?c, [[1, 1], [0, 1]], 1))"
    by code_simp
  then have c0: "RowChoice_reachable ?c"
    using RowChoice_reachable.rc_init RowChoice_reachable.rc_reset by blast
  have c1: "has_shape 2 2 [[1, 1], [0, 1]]"
    by (simp add: has_shape_def)
  have c2: "lead_of ([[1, 1], [0, 1]] ! nat 0) = Some 0"
    by (simp add: lead_of_def)
  have c3: "\<forall>i < 2. i \<noteq> nat 0 \<longrightarrow> [[1, 1], [0, 1 :: int]] ! i ! 0 = 0"
    by (auto simp: less_2_cases_iff)
  have c3': "[[1, 1], [0, 1 :: int]] ! 1 ! 0 = 0"
    by simp
  have c4: "is_reduced [[1, 1], [0, 1]] 2 = Inr False"
    by code_simp
  have e1: "re_wf ?e"
    by (simp add: re_wf_def has_shape_def RowEchelon_init_def)
  have e2: "fst (re_action_tuples ?e ! nat 0) = ''swap''"
    by code_simp
  have e3: "(0::int) < int (re_action_size ?e)"
    by code_simp
  have e4: "is_row_echelon ?e = Inr False"
    by code_simp
  have e5: "RowEchelon_step ?e 0 = Inr (?e1, [[1, 0], [0, 1], [1, 1]], - 1, False)"
    by code_simp
  have odd3: "\<not> even (3::nat)" by simp
  note t = termination_depends_on_the_actions[of ?c ?c 0 ?e 0 ?e1 "[[1, 0], [0, 1], [1, 1]]" "- 1"]
  from t c0 c4 have
    x: "\<exists>as env' rs. as \<noteq> [] \<and> length as \<le> 2
          \<and> (\<forall>a \<in> set as. 0 \<le> a \<and> a < 2)
          \<and> RowChoice_run ?c as = Inr (env', rs) \<and> snd (last rs)"
    by simp
  from t c1 c2 c3 c4 e1 e2 e3 e4 e5
  have "RowChoice_run ?c (replicate 3 0) = Inr (?c, replicate 3 (- 100, False))
      \<and> RowEchelon_run ?e (replicate 3 0) = Inr (if even (3::nat) then ?e else ?e1, replicate 3 (- 1, False))"
    by simp
  with x c0 c1 c2 c3' c4 e1 e2 e4 e5 odd3 show ?thesis
    by simp
qed

section \<open>The pairs-left baseline\<close>

text \<open>
  Claim C10 as stated fails. With \<open>gam = 2 ^ 512\<close> (a float) and an input of shape
  \<open>(1, 2)\<close>, \<open>self.gam == 1\<close> is false and \<open>self.gam ** pairs\<close> raises
  \<open>OverflowError\<close>: \<open>predict\<close> returns no array.
\<close>

theorem PairsLeftBaseline_predict_overflow_counterexample:
  "PairsLeftBaseline_predict exact_arith (2 ^ 512) \<lparr>nd_shape = [1, 2], nd_data = [0 :: int, 0]\<rparr>
     = Inl OverflowError"
  by (simp add: PairsLeftBaseline_predict_def fill_value_of_def exact_arith_def
        power_mult [symmetric])

text \<open>
  Claim C10, amended. \<open>PairsLeftBaseline.predict\<close> reads only the shape of its input:
  two inputs of the same shape have the same outcome, the array returned or the exception
  raised. On an input of shape \<open>(s, p, ...)\<close> with \<open>gam == 1\<close> it returns \<open>s\<close> rows of
  one entry each, every entry the integer \<open>-p\<close>. Otherwise it evaluates
  \<open>-(1 - gam ** p) / (1 - gam)\<close> in the arithmetic of \<open>gam\<close>: when that returns a value
  \<open>predict\<close> returns \<open>s\<close> rows of one entry each, every entry that value, and when it
  raises (the power out of range) \<open>predict\<close> raises the same exception.
  Whatever the arithmetic, an array that \<open>predict\<close> returns has shape \<open>(s, 1)\<close> for
  the first dimension \<open>s\<close> of the input, and all its rows are equal.
\<close>

theorem PairsLeftBaseline_predict_shape_only:
  "(nd_shape X = nd_shape Y \<longrightarrow>
      PairsLeftBaseline_predict ar gam X = PairsLeftBaseline_predict ar gam Y)
   \<and> (nd_shape X = s # p # rest \<and> ar_is_one ar gam \<longrightarrow>
      PairsLeftBaseline_predict ar gam X = Inr (replicate s [IntV (- int p)]))
   \<and> (nd_shape X = s # p # rest \<and> \<not> ar_is_one ar gam \<and> fill_value_of ar gam p = Inr v \<longrightarrow>
      PairsLeftBaseline_predict ar gam X = Inr (replicate s [FloatV v]))
   \<and> (nd_shape X = s # p # rest \<and> \<not> ar_is_one ar gam \<and> fill_value_of ar gam p = Inl e \<longrightarrow>
      PairsLeftBaseline_predict ar gam X = Inl e)
   \<and> (PairsLeftBaseline_predict ar gam X = Inr out \<longrightarrow>
      (\<exists>p' rest'. nd_shape X = length out # p' # rest')
      \<and> (\<forall>i < length out. length (out ! i) = 1 \<and> out ! i = out ! 0))"
proof (intro conjI impI)
  assume "nd_shape X = nd_shape Y"
  then show "PairsLeftBaseline_predict ar gam X = PairsLeftBaseline_predict ar gam Y"
    by (simp add: PairsLeftBaseline_predict_def)
next
  assume "nd_shape X = s # p # rest \<and> ar_is_one ar gam"
  then show "PairsLeftBaseline_predict ar gam X = Inr (replicate s [IntV (- int p)])"
    by (simp add: PairsLeftBaseline_predict_def)
next
  assume "nd_shape X = s # p # rest \<and> \<not> ar_is_one ar gam \<and> fill_value_of ar gam p = Inr v"
  then show "PairsLeftBaseline_predict ar gam X = Inr (replicate s [FloatV v])"
    by (simp add: PairsLeftBaseline_predict_def)
next
  assume "nd_shape X = s # p # rest \<and> \<not> ar_is_one ar gam \<and> fill_value_of ar gam p = Inl e"
  then show "PairsLeftBaseline_predict ar gam X = Inl e"
    by (simp add: PairsLeftBaseline_predict_def)
next
  assume r: "PairsLeftBaseline_predict ar gam X = Inr out"
  then obtain s' p' rest' where sh: "nd_shape X = s' # p' # rest'"
    by (auto simp: PairsLeftBaseline_predict_def split: list.splits)
  from r sh obtain x where out: "out = replicate s' [x]"
    by (auto simp: PairsLeftBaseline_predict_def split: if_splits sum.splits)
  from sh out show "\<exists>p' rest'. nd_shape X = length out # p' # rest'" by simp
  from out show "\<forall>i < length out. length (out ! i) = 1 \<and> out ! i = out ! 0" by simp
qed

theorem PairsLeftBaseline_predict_shape_only_witness:
  "nd_shape \<lparr>nd_shape = [2, 3, 4], nd_data = replicate 24 (0::int)\<rparr>
       = nd_shape \<lparr>nd_shape = [2, 3, 4], nd_data = replicate 24 (5::int)\<rparr>
   \<and> PairsLeftBaseline_predict exact_arith (1 / 2) \<lparr>nd_shape = [2, 3, 4], nd_data = replicate 24 (0::int)\<rparr>
       = PairsLeftBaseline_predict exact_arith (1 / 2) \<lparr>nd_shape = [2, 3, 4], nd_data = replicate 24 (5::int)\<rparr>
   \<and> ar_is_one exact_arith 1
   \<and> PairsLeftBaseline_predict exact_arith 1 \<lparr>nd_shape = [2, 3, 4], nd_data = replicate 24 (0::int)\<rparr>
       = Inr [[IntV (- 3)], [IntV (- 3)]]
   \<and> \<not> ar_is_one exact_arith (1 / 2)
   \<and> fill_value_of exact_arith (1 / 2) 3 = Inr (- (7 / 4))
   \<and> PairsLeftBaseline_predict exact_arith (1 / 2) \<lparr>nd_shape = [2, 3, 4], nd_data = replicate 24 (0::int)\<rparr>
       = Inr [[FloatV (- (7 / 4))], [FloatV (- (7 / 4))]]
   \<and> \<not> ar_is_one exact_arith (2 ^ 512)
   \<and> fill_value_of exact_arith (2 ^ 512) 3 = Inl OverflowError
   \<and> PairsLeftBaseline_predict exact_arith (2 ^ 512) \<lparr>nd_shape = [2, 3, 4], nd_data = replicate 24 (0::int)\<rparr>
       = Inl OverflowError
   \<and> (\<exists>p' rest'. nd_shape \<lparr>nd_shape = [2, 3, 4], nd_data = replicate 24 (0::int)\<rparr>
         = length [[FloatV (- (7 / 4) :: real)], [FloatV (- (7 / 4))]] # p' # rest')"
proof -
  let ?X = "\<lparr>nd_shape = [2, 3, 4], nd_data = replicate 24 (0::int)\<rparr>"
  let ?Y = "\<lparr>nd_shape = [2, 3, 4], nd_data = replicate 24 (5::int)\<rparr>"
  have sh: "nd_shape ?X = 2 # 3 # [4]" by simp
  have eq: "nd_shape ?X = nd_shape ?Y" by simp
  have r2: "replicate 2 x = [x, x]" for x :: "real number list"
    by (simp add: numeral_2_eq_2)
  have one: "ar_is_one exact_arith 1" by (simp add: exact_arith_def)
  have half: "\<not> ar_is_one exact_arith (1 / 2)" by (simp add: exact_arith_def)
  have big: "\<not> ar_is_one exact_arith (2 ^ 512)" by (simp add: exact_arith_def)
  have p8: "(1 / 2 :: real) ^ 3 = 1 / 8" by (simp add: power3_eq_cube)
  have small: "\<not> (2 :: real) ^ 1024 \<le> 1 / 8"
  proof -
    have "(1 :: real) \<le> 2 ^ 1024" by (rule one_le_power) simp
    then show ?thesis by simp
  qed
  have fv: "fill_value_of exact_arith (1 / 2) 3 = Inr (- (7 / 4))"
    using small by (simp add: fill_value_of_def exact_arith_def p8)
  have "(2 :: real) ^ 1024 \<le> (2 ^ 512) ^ 3"
    by (simp add: power_mult [symmetric])
  then have fe: "fill_value_of exact_arith (2 ^ 512) 3 = Inl OverflowError"
    by (simp add: fill_value_of_def exact_arith_def)
  note th = PairsLeftBaseline_predict_shape_only[of ?X ?Y exact_arith _ 2 3 "[4]"]
  have c1: "PairsLeftBaseline_predict exact_arith (1 / 2) ?X
      = PairsLeftBaseline_predict exact_arith (1 / 2) ?Y"
    using th[of "1 / 2", THEN conjunct1] eq by blast
  have c2: "PairsLeftBaseline_predict exact_arith 1 ?X = Inr [[IntV (- 3)], [IntV (- 3)]]"
    using th[of 1, THEN conjunct2, THEN conjunct1] sh one by (simp add: r2)
  have c3: "PairsLeftBaseline_predict exact_arith (1 / 2) ?X
      = Inr [[FloatV (- (7 / 4))], [FloatV (- (7 / 4))]]"
    using th[of "1 / 2" "- (7 / 4)", THEN conjunct2, THEN conjunct2, THEN conjunct1] sh half fv
    by (simp add: r2)
  have c4: "PairsLeftBaseline_predict exact_arith (2 ^ 512) ?X = Inl OverflowError"
    using th[of "2 ^ 512" _ OverflowError, THEN conjunct2, THEN conjunct2, THEN conjunct2,
        THEN conjunct1] sh big fe
    by blast
  have c5: "\<exists>p' rest'. nd_shape ?X
      = length [[FloatV (- (7 / 4) :: real)], [FloatV (- (7 / 4))]] # p' # rest'"
    using th[of "1 / 2" _ _ "[[FloatV (- (7 / 4))], [FloatV (- (7 / 4))]]", THEN conjunct2,
        THEN conjunct2, THEN conjunct2, THEN conjunct2] c3
    by blast
  from eq c1 one c2 half fv c3 big fe c4 c5 show ?thesis by blast
qed

section \<open>The done flag\<close>

lemma lead_from_zero: "\<forall>j < length r. r ! j = 0 \<Longrightarrow> lead_from k r = None"
proof (induction r arbitrary: k)
  case Nil
  then show ?case by simp
next
  case (Cons x xs)
  from Cons.prems have "x = 0" by auto
  moreover from Cons.prems have "\<forall>j < length xs. xs ! j = 0" by auto
  ultimately show ?case using Cons.IH by simp
qed

lemma lead_of_None_iff: "lead_of r = None \<longleftrightarrow> zero_row r"
proof
  assume "lead_of r = None"
  then show "zero_row r" using lead_of_None[of r] by (simp add: zero_row_def)
next
  assume "zero_row r"
  then show "lead_of r = None" using lead_from_zero[of r 0] by (simp add: zero_row_def lead_of_def)
qed

lemma lead_of_Some_iff: "lead_of r = Some l \<longleftrightarrow> leading_index r l"
  using lead_of_Some[of r l] lead_of_first[of l r] by (auto simp: leading_index_def)

lemma row_echelon_loop_eval:
  "k \<le> length m \<Longrightarrow>
     row_echelon_loop m [k..<length m] prev
       = Inr (k < length m \<longrightarrow>
                lead_after prev (lead_of (m ! k))
                \<and> (\<forall>i. k < i \<and> i < length m \<longrightarrow>
                      lead_after (map_option int (lead_of (m ! (i - 1)))) (lead_of (m ! i))))"
proof (induction "length m - k" arbitrary: k prev)
  case 0
  then show ?case by simp
next
  case (Suc d)
  then have k: "k < length m" by simp
  then have upt: "[k..<length m] = k # [Suc k..<length m]" by (simp add: upt_conv_Cons)
  have d: "d = length m - Suc k" using Suc.hyps(2) by simp
  have sk: "Suc k \<le> length m" using k by simp
  note IH = Suc.hyps(1)[OF d sk]
  have split: "(\<forall>i. k < i \<and> i < length m \<longrightarrow> P i)
      \<longleftrightarrow> (Suc k < length m \<longrightarrow> P (Suc k) \<and> (\<forall>i. Suc k < i \<and> i < length m \<longrightarrow> P i))" for P
  proof
    assume a: "\<forall>i. k < i \<and> i < length m \<longrightarrow> P i"
    show "Suc k < length m \<longrightarrow> P (Suc k) \<and> (\<forall>i. Suc k < i \<and> i < length m \<longrightarrow> P i)"
      using a by auto
  next
    assume a: "Suc k < length m \<longrightarrow> P (Suc k) \<and> (\<forall>i. Suc k < i \<and> i < length m \<longrightarrow> P i)"
    show "\<forall>i. k < i \<and> i < length m \<longrightarrow> P i"
    proof (intro allI impI)
      fix i assume i: "k < i \<and> i < length m"
      show "P i"
      proof (cases "i = Suc k")
        case True
        with a i show ?thesis by auto
      next
        case False
        with i have "Suc k < i" by simp
        with a i show ?thesis by auto
      qed
    qed
  qed
  define C where "C = (\<lambda>i. lead_after (map_option int (lead_of (m ! (i - 1)))) (lead_of (m ! i)))"
  have Csuc: "C (Suc k) = lead_after (map_option int (lead_of (m ! k))) (lead_of (m ! Suc k))"
    by (simp add: C_def)
  have IH': "row_echelon_loop m [Suc k..<length m] p
      = Inr (Suc k < length m \<longrightarrow>
                lead_after p (lead_of (m ! Suc k))
                \<and> (\<forall>i. Suc k < i \<and> i < length m \<longrightarrow> C i))" for p
    unfolding C_def by (rule IH)
  have goal: "?case \<longleftrightarrow> row_echelon_loop m [k..<length m] prev
       = Inr (lead_after prev (lead_of (m ! k))
                \<and> (Suc k < length m \<longrightarrow> C (Suc k) \<and> (\<forall>i. Suc k < i \<and> i < length m \<longrightarrow> C i)))"
    using k split[of C] by (simp add: C_def)
  show ?case
  proof (cases "lead_of (m ! k)")
    case None
    have "row_echelon_loop m [k..<length m] prev = row_echelon_loop m [Suc k..<length m] None"
      using k None by (simp add: upt row_at_nat)
    moreover have "lead_after prev (lead_of (m ! k))"
      using None by (simp add: lead_after_def)
    moreover have "C (Suc k) = lead_after None (lead_of (m ! Suc k))"
      using None by (simp add: Csuc)
    ultimately show ?thesis
      unfolding goal by (simp add: IH')
  next
    case (Some l)
    show ?thesis
    proof (cases "lead_after prev (Some l)")
      case False
      then have "row_echelon_loop m [k..<length m] prev = Inr False"
        using k Some by (auto simp: upt row_at_nat lead_after_def split: option.splits)
      with False Some show ?thesis
        unfolding goal by simp
    next
      case True
      then have "row_echelon_loop m [k..<length m] prev
                   = row_echelon_loop m [Suc k..<length m] (Some (int l))"
        using k Some by (auto simp: upt row_at_nat lead_after_def split: option.splits)
      moreover have "C (Suc k) = lead_after (Some (int l)) (lead_of (m ! Suc k))"
        using Some by (simp add: Csuc)
      ultimately show ?thesis
        unfolding goal using True Some by (simp add: IH')
    qed
  qed
qed

lemma lead_after_chain:
  fixes f :: "nat \<Rightarrow> nat option"
  shows "(\<forall>i. 0 < i \<and> i < n \<longrightarrow> lead_after (map_option int (f (i - 1))) (f i))
     \<longleftrightarrow> ((\<forall>i j. i < j \<and> j < n \<and> f i = None \<longrightarrow> f j = None)
          \<and> (\<forall>i j l l'. i < j \<and> j < n \<and> f i = Some l \<and> f j = Some l' \<longrightarrow> l < l'))"
proof
  assume C: "\<forall>i. 0 < i \<and> i < n \<longrightarrow> lead_after (map_option int (f (i - 1))) (f i)"
  have step: "lead_after (map_option int (f j)) (f (Suc j))" if "Suc j < n" for j
    using C that by (metis diff_Suc_1 zero_less_Suc)
  have A: "f j = None" if "i < j" "j < n" "f i = None" for i j
    using that
  proof (induction j)
    case 0
    then show ?case by simp
  next
    case (Suc j)
    have "f j = None"
    proof (cases "i = j")
      case True
      with Suc.prems show ?thesis by simp
    next
      case False
      with Suc.prems have "i < j" "j < n" by simp_all
      with Suc.IH Suc.prems show ?thesis by simp
    qed
    with step[OF Suc.prems(2)] show ?case
      by (cases "f (Suc j)") (simp_all add: lead_after_def)
  qed
  have B: "l < l'" if "i < j" "j < n" "f i = Some l" "f j = Some l'" for i j l l'
    using that
  proof (induction j arbitrary: l')
    case 0
    then show ?case by simp
  next
    case (Suc j)
    from step[OF Suc.prems(2)] Suc.prems(4) obtain q where
      q: "f j = Some q" "q < l'"
      by (cases "f j") (auto simp: lead_after_def)
    show ?case
    proof (cases "i = j")
      case True
      with q Suc.prems(3) show ?thesis by simp
    next
      case False
      with Suc.prems have "i < j" "j < n" by simp_all
      from Suc.IH[OF this Suc.prems(3) q(1)] q(2) show ?thesis by simp
    qed
  qed
  from A B show "(\<forall>i j. i < j \<and> j < n \<and> f i = None \<longrightarrow> f j = None)
          \<and> (\<forall>i j l l'. i < j \<and> j < n \<and> f i = Some l \<and> f j = Some l' \<longrightarrow> l < l')"
    by blast
next
  assume P: "(\<forall>i j. i < j \<and> j < n \<and> f i = None \<longrightarrow> f j = None)
          \<and> (\<forall>i j l l'. i < j \<and> j < n \<and> f i = Some l \<and> f j = Some l' \<longrightarrow> l < l')"
  show "\<forall>i. 0 < i \<and> i < n \<longrightarrow> lead_after (map_option int (f (i - 1))) (f i)"
  proof (intro allI impI)
    fix i assume i: "0 < i \<and> i < n"
    then have lt: "i - 1 < i" by simp
    show "lead_after (map_option int (f (i - 1))) (f i)"
    proof (cases "f i")
      case None
      then show ?thesis by (simp add: lead_after_def)
    next
      case (Some l')
      show ?thesis
      proof (cases "f (i - 1)")
        case None
        with P lt i have "f i = None" by blast
        with Some show ?thesis by simp
      next
        case (Some l)
        with P lt i \<open>f i = Some l'\<close> have "l < l'" by blast
        with Some \<open>f i = Some l'\<close> show ?thesis by (simp add: lead_after_def)
      qed
    qed
  qed
qed

lemma is_row_echelon_form:
  assumes "length (re_matrix env) = re_N env"
  shows "is_row_echelon env = Inr (row_echelon_form (re_matrix env))"
proof -
  let ?m = "re_matrix env"
  let ?f = "\<lambda>i. lead_of (?m ! i)"
  have first: "lead_after (Some (- 1)) x" for x
    by (cases x) (simp_all add: lead_after_def)
  have "is_row_echelon env = row_echelon_loop ?m [0..<length ?m] (Some (- 1))"
    using assms by (simp add: is_row_echelon_def)
  also have "\<dots> = Inr (0 < length ?m \<longrightarrow>
                lead_after (Some (- 1)) (lead_of (?m ! 0))
                \<and> (\<forall>i. 0 < i \<and> i < length ?m \<longrightarrow>
                      lead_after (map_option int (lead_of (?m ! (i - 1)))) (lead_of (?m ! i))))"
    by (rule row_echelon_loop_eval) simp
  also have "\<dots> = Inr (\<forall>i. 0 < i \<and> i < length ?m \<longrightarrow>
                      lead_after (map_option int (?f (i - 1))) (?f i))"
    using first by auto
  also have "\<dots> = Inr (row_echelon_form ?m)"
    unfolding lead_after_chain[of "length ?m" ?f] row_echelon_form_def
      lead_of_None_iff lead_of_Some_iff ..
  finally show ?thesis .
qed

lemma settled_iff:
  "settled m n r \<longleftrightarrow> (\<forall>l. leading_index (m ! r) l \<longrightarrow> (\<forall>i < n. i \<noteq> r \<longrightarrow> m ! i ! l = 0))"
  by (cases "lead_of (m ! r)") (auto simp: settled_def lead_of_Some_iff [symmetric])

lemma is_reduced_form:
  assumes "has_shape n k m"
  shows "is_reduced m n = Inr (reduced_form m)"
proof -
  have "length m = n" using assms by (simp add: has_shape_def)
  then show ?thesis
    using is_reduced_settled[OF assms] by (simp add: reduced_form_def settled_iff)
qed

lemma RowEchelon_step_wf:
  assumes wf: "re_wf env" and st: "RowEchelon_step env a = Inr (env', ob, r, d)"
  shows "re_wf env'"
proof -
  let ?n = "re_N env" and ?k = "re_M env" and ?m = "re_matrix env"
  have sh: "has_shape ?n ?k ?m" using wf by (simp add: re_wf_def)
  from st obtain k m' where
    k: "py_index (length (re_action_tuples env)) a = Inr k" and
    m': "(if fst (re_action_tuples env ! k) = ''add''
          then add_rows (re_F env) ?m (snd (re_action_tuples env ! k))
          else swap_rows ?m (snd (re_action_tuples env ! k))) = Inr m'" and
    e: "env' = env\<lparr>re_matrix := m'\<rparr>"
    by (auto simp: RowEchelon_step_def Let_def split: sum.splits)
  have rows: "length r = ?k" if "row_at ?m i = Inr r" for i r
    using row_at_mem[OF that] sh by (simp add: has_shape_def)
  have "has_shape ?n ?k m'"
  proof (cases "fst (re_action_tuples env ! k) = ''add''")
    case True
    with m' obtain r1 r0 where
      "row_at ?m (int (snd (snd (re_action_tuples env ! k)))) = Inr r1"
      "row_at ?m (int (fst (snd (re_action_tuples env ! k)))) = Inr r0"
      "m' = ?m[snd (snd (re_action_tuples env ! k)) := add_rows_mod (re_F env) r1 r0]"
      by (auto simp: add_rows_def split: sum.splits)
    then show ?thesis
      using sh rows by (auto intro!: has_shape_update simp: length_add_rows_mod)
  next
    case False
    with m' obtain r1 r0 where
      "row_at ?m (int (snd (snd (re_action_tuples env ! k)))) = Inr r1"
      "row_at ?m (int (fst (snd (re_action_tuples env ! k)))) = Inr r0"
      "m' = ?m[fst (snd (re_action_tuples env ! k)) := r1, snd (snd (re_action_tuples env ! k)) := r0]"
      by (auto simp: swap_rows_def split: sum.splits)
    then show ?thesis
      using sh rows by (auto intro!: has_shape_update)
  qed
  with wf e show ?thesis by (simp add: re_wf_def)
qed

lemma RowEchelon_run_wf:
  "re_wf env \<Longrightarrow> RowEchelon_run env as = Inr (env', rs) \<Longrightarrow> re_wf env'"
proof (induction as arbitrary: env rs)
  case Nil
  then show ?case by simp
next
  case (Cons a as)
  from Cons.prems(2) obtain e1 ob r d rs' where
    st: "RowEchelon_step env a = Inr (e1, ob, r, d)" and
    rn: "RowEchelon_run e1 as = Inr (env', rs')"
    by (auto split: sum.splits prod.splits)
  from RowEchelon_step_wf[OF Cons.prems(1) st] rn show ?case by (rule Cons.IH)
qed

lemma RowChoice_run_shape:
  "has_shape (rc_N env) (rc_M env) (rc_matrix env) \<Longrightarrow> RowChoice_run env as = Inr (env', rs)
     \<Longrightarrow> has_shape (rc_N env') (rc_M env') (rc_matrix env')"
proof (induction as arbitrary: env rs)
  case Nil
  then show ?case by simp
next
  case (Cons a as)
  from Cons.prems(2) obtain e1 ob r d rs' where
    st: "RowChoice_step env a = Inr (e1, ob, r, d)" and
    rn: "RowChoice_run e1 as = Inr (env', rs')"
    by (auto split: sum.splits prod.splits)
  from RowChoice_step_shape[OF st Cons.prems(1)] rn show ?case by (rule Cons.IH)
qed

text \<open>
  Claim C5. After any sequence of steps that return, of any length, from a state with
  the constructor's invariant, the \<open>done\<close> flag of the last step is the value of the
  terminal predicate of the environment on the matrix after that step, and it is true
  exactly when that matrix is in row echelon form (\<open>RowEchelonEnvironment\<close>) or reduced
  (\<open>RowChoiceEnvironment\<close>); the number of steps taken has no part in it.
\<close>

theorem done_iff_terminal_predicate:
  "(re_wf env \<and> RowEchelon_run env (as @ [a]) = Inr (env', rs) \<longrightarrow>
      is_row_echelon env' = Inr (snd (last rs))
      \<and> (snd (last rs) \<longleftrightarrow> row_echelon_form (re_matrix env')))
   \<and> (has_shape (rc_N cenv) (rc_M cenv) (rc_matrix cenv)
        \<and> RowChoice_run cenv (bs @ [b]) = Inr (cenv', rs') \<longrightarrow>
      is_reduced (rc_matrix cenv') (rc_N cenv') = Inr (snd (last rs'))
      \<and> (snd (last rs') \<longleftrightarrow> reduced_form (rc_matrix cenv')))"
proof (intro conjI impI)
  assume h: "re_wf env \<and> RowEchelon_run env (as @ [a]) = Inr (env', rs)"
  then have wf': "re_wf env'" using RowEchelon_run_wf by blast
  from h show d: "is_row_echelon env' = Inr (snd (last rs))"
    using RowEchelon_run_last_done by blast
  have "length (re_matrix env') = re_N env'"
    using wf' by (simp add: re_wf_def has_shape_def)
  from is_row_echelon_form[OF this] d
  show "snd (last rs) \<longleftrightarrow> row_echelon_form (re_matrix env')" by simp
next
  assume h: "has_shape (rc_N cenv) (rc_M cenv) (rc_matrix cenv)
        \<and> RowChoice_run cenv (bs @ [b]) = Inr (cenv', rs')"
  then have sh': "has_shape (rc_N cenv') (rc_M cenv') (rc_matrix cenv')"
    using RowChoice_run_shape by blast
  from h show d: "is_reduced (rc_matrix cenv') (rc_N cenv') = Inr (snd (last rs'))"
    using RowChoice_run_last_done by blast
  from is_reduced_form[OF sh'] d
  show "snd (last rs') \<longleftrightarrow> reduced_form (rc_matrix cenv')" by simp
qed

theorem done_iff_terminal_predicate_witness:
  "re_wf ((RowEchelon_init (2, 2) 2)\<lparr>re_matrix := [[0, 1], [1, 0]]\<rparr>)
   \<and> RowEchelon_run ((RowEchelon_init (2, 2) 2)\<lparr>re_matrix := [[0, 1], [1, 0]]\<rparr>) ([2, 0] @ [1])
     = Inr ((RowEchelon_init (2, 2) 2)\<lparr>re_matrix := [[1, 0], [0, 1]]\<rparr>,
            [(- 1, False), (- 1, False), (- 1, True)])
   \<and> row_echelon_form [[1, 0], [0, 1]]
   \<and> RowEchelon_run ((RowEchelon_init (2, 2) 2)\<lparr>re_matrix := [[0, 1], [1, 0]]\<rparr>) ([2] @ [0])
     = Inr ((RowEchelon_init (2, 2) 2)\<lparr>re_matrix := [[1, 0], [1, 1]]\<rparr>, [(- 1, False), (- 1, False)])
   \<and> \<not> row_echelon_form [[1, 0], [1, 1]]
   \<and> has_shape 2 2 [[1, 1], [0, 1]]
   \<and> RowChoice_run \<lparr>rc_N = 2, rc_M = 2, rc_density = 1 / 2, rc_matrix = [[1, 1], [0, 1]]\<rparr> ([0] @ [1])
     = Inr (\<lparr>rc_N = 2, rc_M = 2, rc_density = 1 / 2, rc_matrix = [[1, 0], [0, 1]]\<rparr>,
            [(- 100, False), (- 1, True)])
   \<and> reduced_form [[1, 0], [0, 1]]
   \<and> RowChoice_run \<lparr>rc_N = 2, rc_M = 2, rc_density = 1 / 2, rc_matrix = [[1, 1], [0, 1]]\<rparr> ([] @ [0])
     = Inr (\<lparr>rc_N = 2, rc_M = 2, rc_density = 1 / 2, rc_matrix = [[1, 1], [0, 1]]\<rparr>,
            [(- 100, False)])
   \<and> \<not> reduced_form [[1, 1], [0, 1]]"
proof -
  let ?e = "(RowEchelon_init (2, 2) 2)\<lparr>re_matrix := [[0, 1], [1, 0]]\<rparr>"
  let ?e1 = "(RowEchelon_init (2, 2) 2)\<lparr>re_matrix := [[1, 0], [0, 1]]\<rparr>"
  let ?e2 = "(RowEchelon_init (2, 2) 2)\<lparr>re_matrix := [[1, 0], [1, 1]]\<rparr>"
  let ?c = "\<lparr>rc_N = 2, rc_M = 2, rc_density = 1 / 2, rc_matrix = [[1, 1], [0, 1]]\<rparr>"
  let ?c1 = "\<lparr>rc_N = 2, rc_M = 2, rc_density = 1 / 2, rc_matrix = [[1, 0], [0, 1]]\<rparr>"
  have wf: "re_wf ?e"
    by (simp add: re_wf_def has_shape_def RowEchelon_init_def)
  have sh: "has_shape (rc_N ?c) (rc_M ?c) (rc_matrix ?c)"
    by (simp add: has_shape_def)
  have a1: "RowEchelon_run ?e ([2, 0] @ [1]) = Inr (?e1, [(- 1, False), (- 1, False), (- 1, True)])"
    by code_simp
  have a2: "RowEchelon_run ?e ([2] @ [0]) = Inr (?e2, [(- 1, False), (- 1, False)])"
    by code_simp
  have b1: "RowChoice_run ?c ([0] @ [1]) = Inr (?c1, [(- 100, False), (- 1, True)])"
    by code_simp
  have b2: "RowChoice_run ?c ([] @ [0]) = Inr (?c, [(- 100, False)])"
    by code_simp
  from done_iff_terminal_predicate[of ?e "[2, 0]" 1 ?e1 "[(- 1, False), (- 1, False), (- 1, True)]"
      ?c "[0]" 1 ?c1 "[(- 100, False), (- 1, True)]"]
       done_iff_terminal_predicate[of ?e "[2]" 0 ?e2 "[(- 1, False), (- 1, False)]"
      ?c "[]" 0 ?c "[(- 100, False)]"]
       wf sh a1 a2 b1 b2
  show ?thesis by simp
qed

section \<open>Observations of all the row-reduction environments\<close>

lemma RowChoiceExtraObject_step_fresh:
  assumes p: "xo_matrix obj < length h" "xo_rows obj < length h"
    and st: "RowChoiceExtraObject_step obj h a = Inr (h', (obr, obm), r, d)"
  shows "obr = length h \<and> obm = Suc (length h) \<and> length h' = Suc (Suc (length h))
         \<and> h' ! obr = h' ! xo_rows obj \<and> h' ! obm = h' ! xo_matrix obj
         \<and> (\<forall>q < length h. q \<noteq> xo_matrix obj \<and> q \<noteq> xo_rows obj \<longrightarrow> h' ! q = h ! q)"
  using st p
  by (auto simp: RowChoiceExtraObject_step_def np_copy_def Let_def nth_append
        split: sum.splits option.splits prod.splits if_splits)

lemma RowChoiceExtraObject_step_frame:
  assumes p: "xo_matrix obj < length h" "xo_rows obj < length h"
    and q: "q < length h" "q \<noteq> xo_matrix obj" "q \<noteq> xo_rows obj"
  shows "RowChoiceExtraObject_step obj (h[q := v]) a =
     (case RowChoiceExtraObject_step obj h a of
        Inl e \<Rightarrow> Inl e
      | Inr (h', obs, r, d) \<Rightarrow> Inr (h'[q := v], obs, r, d))"
proof -
  have sw: "h[q := v, i := x] = h[i := x, q := v]" if "i \<noteq> q" for i x and h :: nd_store
    using that by (simp add: list_update_swap)
  show ?thesis
    using p q
    by (simp add: RowChoiceExtraObject_step_def np_copy_def Let_def sw list_update_append1
          nth_append split: sum.splits option.splits prod.splits)
qed

lemma take_append_one:
  assumes "take (length (h @ [m])) h' = h @ [m]"
  shows "take (length h) h' = h"
proof -
  have "take (length h) (take (length (h @ [m])) h') = take (length h) (h @ [m])"
    using assms by simp
  then show ?thesis by (simp add: min_def)
qed

lemma RowChoiceObject_reset_loop_props:
  assumes "RowChoiceObject_reset_loop obj h rnd k = Some y"
  shows "\<forall>obj' h' k'. y = Inr (obj', h', k') \<longrightarrow>
           length h \<le> length h' \<and> take (length h) h' = h
           \<and> (co_matrix obj < length h \<longrightarrow> co_matrix obj' < length h')
           \<and> (co_matrix obj' = co_matrix obj \<or> length h \<le> co_matrix obj')
           \<and> (\<forall>q v. q < length h \<and> q \<noteq> co_matrix obj \<longrightarrow>
                 RowChoiceObject_reset_loop obj (h[q := v]) rnd k
                   = Some (Inr (obj', h'[q := v], k')))"
proof (rule RowChoiceObject_reset_loop.raw_induct[where P = "\<lambda>obj h rnd k y.
          \<forall>obj' h' k'. y = Inr (obj', h', k') \<longrightarrow>
           length h \<le> length h' \<and> take (length h) h' = h
           \<and> (co_matrix obj < length h \<longrightarrow> co_matrix obj' < length h')
           \<and> (co_matrix obj' = co_matrix obj \<or> length h \<le> co_matrix obj')
           \<and> (\<forall>q v. q < length h \<and> q \<noteq> co_matrix obj \<longrightarrow>
                 RowChoiceObject_reset_loop obj (h[q := v]) rnd k
                   = Some (Inr (obj', h'[q := v], k')))", OF _ assms])
  fix loop :: "RowChoiceObject \<Rightarrow> store \<Rightarrow> (nat \<Rightarrow> nat \<Rightarrow> nat \<Rightarrow> real) \<Rightarrow> nat
     \<Rightarrow> (py_error + (RowChoiceObject \<times> store \<times> nat)) option"
    and obj h rnd k y
  assume IH: "\<And>obj h rnd k y. loop obj h rnd k = Some y \<Longrightarrow>
      \<forall>obj' h' k'. y = Inr (obj', h', k') \<longrightarrow>
           length h \<le> length h' \<and> take (length h) h' = h
           \<and> (co_matrix obj < length h \<longrightarrow> co_matrix obj' < length h')
           \<and> (co_matrix obj' = co_matrix obj \<or> length h \<le> co_matrix obj')
           \<and> (\<forall>q v. q < length h \<and> q \<noteq> co_matrix obj \<longrightarrow>
                 RowChoiceObject_reset_loop obj (h[q := v]) rnd k
                   = Some (Inr (obj', h'[q := v], k')))"
  assume body: "(case is_reduced (h ! co_matrix obj) (co_N obj) of
        Inl e \<Rightarrow> Some (Inl e)
      | Inr b \<Rightarrow>
          if b then
            (case np_new h (RowChoiceObject_random_matrix obj (rnd k)) of
               (h1, p) \<Rightarrow> loop (obj\<lparr>co_matrix := p\<rparr>) h1 rnd (Suc k))
          else Some (Inr (obj, h, k))) = Some y"
  show "\<forall>obj' h' k'. y = Inr (obj', h', k') \<longrightarrow>
           length h \<le> length h' \<and> take (length h) h' = h
           \<and> (co_matrix obj < length h \<longrightarrow> co_matrix obj' < length h')
           \<and> (co_matrix obj' = co_matrix obj \<or> length h \<le> co_matrix obj')
           \<and> (\<forall>q v. q < length h \<and> q \<noteq> co_matrix obj \<longrightarrow>
                 RowChoiceObject_reset_loop obj (h[q := v]) rnd k
                   = Some (Inr (obj', h'[q := v], k')))"
  proof (intro allI impI)
    fix obj' h' k'
    assume y: "y = Inr (obj', h', k')"
    from body y obtain b where
      b: "is_reduced (h ! co_matrix obj) (co_N obj) = Inr b"
      by (auto split: sum.splits)
    show "length h \<le> length h' \<and> take (length h) h' = h
           \<and> (co_matrix obj < length h \<longrightarrow> co_matrix obj' < length h')
           \<and> (co_matrix obj' = co_matrix obj \<or> length h \<le> co_matrix obj')
           \<and> (\<forall>q v. q < length h \<and> q \<noteq> co_matrix obj \<longrightarrow>
                 RowChoiceObject_reset_loop obj (h[q := v]) rnd k
                   = Some (Inr (obj', h'[q := v], k')))"
    proof (cases b)
      case False
      with body b y have eq: "obj' = obj" "h' = h" "k' = k" by auto
      have "RowChoiceObject_reset_loop obj (h[q := v]) rnd k = Some (Inr (obj, h[q := v], k))"
        if "q \<noteq> co_matrix obj" for q v
        using that b False by (subst RowChoiceObject_reset_loop.simps) simp
      with eq show ?thesis by simp
    next
      case True
      let ?m = "RowChoiceObject_random_matrix obj (rnd k)"
      from True body b y have
        rec: "loop (obj\<lparr>co_matrix := length h\<rparr>) (h @ [?m]) rnd (Suc k) = Some y"
        by (auto simp: np_new_def)
      from IH[OF rec] y have
        1: "length (h @ [?m]) \<le> length h'" and
        2: "take (length (h @ [?m])) h' = h @ [?m]" and
        3: "co_matrix obj' < length h'" and
        4: "co_matrix obj' = length h \<or> length (h @ [?m]) \<le> co_matrix obj'" and
        5: "\<And>q v. q < length (h @ [?m]) \<Longrightarrow> q \<noteq> length h \<Longrightarrow>
              RowChoiceObject_reset_loop (obj\<lparr>co_matrix := length h\<rparr>) ((h @ [?m])[q := v]) rnd (Suc k)
                = Some (Inr (obj', h'[q := v], k'))"
        by auto
      have rm: "RowChoiceObject_random_matrix (obj\<lparr>co_matrix := p\<rparr>) g
                  = RowChoiceObject_random_matrix obj g" for p g
        by (simp add: RowChoiceObject_random_matrix_def)
      have t: "take (length h) h' = h" using 2 by (rule take_append_one)
      have f: "RowChoiceObject_reset_loop obj (h[q := v]) rnd k = Some (Inr (obj', h'[q := v], k'))"
        if q: "q < length h" "q \<noteq> co_matrix obj" for q v
      proof -
        have "RowChoiceObject_reset_loop (obj\<lparr>co_matrix := length h\<rparr>) ((h @ [?m])[q := v]) rnd (Suc k)
                = Some (Inr (obj', h'[q := v], k'))"
          using 5[of q v] q by simp
        then show ?thesis
          using q b True
          by (subst RowChoiceObject_reset_loop.simps)
             (simp add: np_new_def list_update_append1)
      qed
      from 1 t 3 4 f show ?thesis by auto
    qed
  qed
qed

lemma RowChoiceObject_reset_props:
  assumes "RowChoiceObject_reset obj h rnd k = Some (Inr (obj', h', ob, k'))"
  shows "Suc ob = length h' \<and> length h < ob \<and> co_matrix obj' < ob \<and> length h \<le> co_matrix obj'
         \<and> h' ! ob = h' ! co_matrix obj' \<and> take (length h) h' = h
         \<and> (\<forall>q v. q < length h \<longrightarrow>
               RowChoiceObject_reset obj (h[q := v]) rnd k = Some (Inr (obj', h'[q := v], ob, k')))"
proof -
  let ?m = "RowChoiceObject_random_matrix obj (rnd k)"
  from assms obtain h2 where
    l: "RowChoiceObject_reset_loop (obj\<lparr>co_matrix := length h\<rparr>) (h @ [?m]) rnd (Suc k)
          = Some (Inr (obj', h2, k'))" and
    h': "h' = h2 @ [h2 ! co_matrix obj']" and ob: "ob = length h2"
    by (auto simp: RowChoiceObject_reset_def np_new_def np_copy_def
          split: sum.splits option.splits prod.splits)
  from RowChoiceObject_reset_loop_props[OF l] have
    1: "length (h @ [?m]) \<le> length h2" and
    2: "take (length (h @ [?m])) h2 = h @ [?m]" and
    3: "co_matrix obj' < length h2" and
    4: "co_matrix obj' = length h \<or> length (h @ [?m]) \<le> co_matrix obj'" and
    5: "\<And>q v. q < length (h @ [?m]) \<Longrightarrow> q \<noteq> length h \<Longrightarrow>
          RowChoiceObject_reset_loop (obj\<lparr>co_matrix := length h\<rparr>) ((h @ [?m])[q := v]) rnd (Suc k)
            = Some (Inr (obj', h2[q := v], k'))"
    by auto
  have "take (length h) h2 = h" using 2 by (rule take_append_one)
  then have t: "take (length h) h' = h" using 1 h' by simp
  have f: "RowChoiceObject_reset obj (h[q := v]) rnd k = Some (Inr (obj', h'[q := v], ob, k'))"
    if q: "q < length h" for q v
  proof -
    have "RowChoiceObject_reset_loop (obj\<lparr>co_matrix := length h\<rparr>) ((h @ [?m])[q := v]) rnd (Suc k)
            = Some (Inr (obj', h2[q := v], k'))"
      using 5[of q v] q by simp
    moreover have "q \<noteq> co_matrix obj'" "q < length h2"
      using 4 q 1 by auto
    ultimately show ?thesis
      using q h' ob 3
      by (simp add: RowChoiceObject_reset_def np_new_def np_copy_def list_update_append1)
  qed
  from 1 3 4 h' ob t f show ?thesis
    by (auto simp: nth_append)
qed

lemma RowChoiceExtraObject_reset_loop_props:
  assumes "RowChoiceExtraObject_reset_loop obj h rnd k = Some y"
  shows "\<forall>obj' h' k'. y = Inr (obj', h', k') \<longrightarrow>
           length h \<le> length h' \<and> take (length h) h' = h
           \<and> (xo_matrix obj < length h \<longrightarrow> xo_matrix obj' < length h')
           \<and> (xo_matrix obj' = xo_matrix obj \<or> length h \<le> xo_matrix obj')
           \<and> (\<forall>q v. q < length h \<and> q \<noteq> xo_matrix obj \<longrightarrow>
                 RowChoiceExtraObject_reset_loop obj (h[q := v]) rnd k
                   = Some (Inr (obj', h'[q := v], k')))"
proof (rule RowChoiceExtraObject_reset_loop.raw_induct[where P = "\<lambda>obj h rnd k y.
          \<forall>obj' h' k'. y = Inr (obj', h', k') \<longrightarrow>
           length h \<le> length h' \<and> take (length h) h' = h
           \<and> (xo_matrix obj < length h \<longrightarrow> xo_matrix obj' < length h')
           \<and> (xo_matrix obj' = xo_matrix obj \<or> length h \<le> xo_matrix obj')
           \<and> (\<forall>q v. q < length h \<and> q \<noteq> xo_matrix obj \<longrightarrow>
                 RowChoiceExtraObject_reset_loop obj (h[q := v]) rnd k
                   = Some (Inr (obj', h'[q := v], k')))", OF _ assms])
  fix loop :: "RowChoiceExtraObject \<Rightarrow> nd_store \<Rightarrow> (nat \<Rightarrow> nat \<Rightarrow> nat \<Rightarrow> real) \<Rightarrow> nat
     \<Rightarrow> (py_error + (RowChoiceExtraObject \<times> nd_store \<times> nat)) option"
    and obj h rnd k y
  assume IH: "\<And>obj h rnd k y. loop obj h rnd k = Some y \<Longrightarrow>
      \<forall>obj' h' k'. y = Inr (obj', h', k') \<longrightarrow>
           length h \<le> length h' \<and> take (length h) h' = h
           \<and> (xo_matrix obj < length h \<longrightarrow> xo_matrix obj' < length h')
           \<and> (xo_matrix obj' = xo_matrix obj \<or> length h \<le> xo_matrix obj')
           \<and> (\<forall>q v. q < length h \<and> q \<noteq> xo_matrix obj \<longrightarrow>
                 RowChoiceExtraObject_reset_loop obj (h[q := v]) rnd k
                   = Some (Inr (obj', h'[q := v], k')))"
  assume body: "(case nd_matrix (h ! xo_matrix obj) of
        Inl e \<Rightarrow> Some (Inl e)
      | Inr m \<Rightarrow>
          (case is_reduced m (xo_N obj) of
             Inl e \<Rightarrow> Some (Inl e)
           | Inr b \<Rightarrow>
               if b then
                 (case np_new h (Arr2 (RowChoiceExtraObject_random_matrix obj (rnd k))) of
                    (h1, p) \<Rightarrow> loop (obj\<lparr>xo_matrix := p\<rparr>) h1 rnd (Suc k))
               else Some (Inr (obj, h, k)))) = Some y"
  show "\<forall>obj' h' k'. y = Inr (obj', h', k') \<longrightarrow>
           length h \<le> length h' \<and> take (length h) h' = h
           \<and> (xo_matrix obj < length h \<longrightarrow> xo_matrix obj' < length h')
           \<and> (xo_matrix obj' = xo_matrix obj \<or> length h \<le> xo_matrix obj')
           \<and> (\<forall>q v. q < length h \<and> q \<noteq> xo_matrix obj \<longrightarrow>
                 RowChoiceExtraObject_reset_loop obj (h[q := v]) rnd k
                   = Some (Inr (obj', h'[q := v], k')))"
  proof (intro allI impI)
    fix obj' h' k'
    assume y: "y = Inr (obj', h', k')"
    from body y obtain m b where
      m: "nd_matrix (h ! xo_matrix obj) = Inr m" and
      b: "is_reduced m (xo_N obj) = Inr b"
      by (auto split: sum.splits)
    show "length h \<le> length h' \<and> take (length h) h' = h
           \<and> (xo_matrix obj < length h \<longrightarrow> xo_matrix obj' < length h')
           \<and> (xo_matrix obj' = xo_matrix obj \<or> length h \<le> xo_matrix obj')
           \<and> (\<forall>q v. q < length h \<and> q \<noteq> xo_matrix obj \<longrightarrow>
                 RowChoiceExtraObject_reset_loop obj (h[q := v]) rnd k
                   = Some (Inr (obj', h'[q := v], k')))"
    proof (cases b)
      case False
      with body m b y have eq: "obj' = obj" "h' = h" "k' = k" by auto
      have "RowChoiceExtraObject_reset_loop obj (h[q := v]) rnd k = Some (Inr (obj, h[q := v], k))"
        if "q \<noteq> xo_matrix obj" for q v
        using that m b False by (subst RowChoiceExtraObject_reset_loop.simps) simp
      with eq show ?thesis by simp
    next
      case True
      let ?m = "Arr2 (RowChoiceExtraObject_random_matrix obj (rnd k))"
      from True body m b y have
        rec: "loop (obj\<lparr>xo_matrix := length h\<rparr>) (h @ [?m]) rnd (Suc k) = Some y"
        by (auto simp: np_new_def)
      from IH[OF rec] y have
        1: "length (h @ [?m]) \<le> length h'" and
        2: "take (length (h @ [?m])) h' = h @ [?m]" and
        3: "xo_matrix obj' < length h'" and
        4: "xo_matrix obj' = length h \<or> length (h @ [?m]) \<le> xo_matrix obj'" and
        5: "\<And>q v. q < length (h @ [?m]) \<Longrightarrow> q \<noteq> length h \<Longrightarrow>
              RowChoiceExtraObject_reset_loop (obj\<lparr>xo_matrix := length h\<rparr>) ((h @ [?m])[q := v]) rnd (Suc k)
                = Some (Inr (obj', h'[q := v], k'))"
        by auto
      have t: "take (length h) h' = h" using 2 by (rule take_append_one)
      have f: "RowChoiceExtraObject_reset_loop obj (h[q := v]) rnd k = Some (Inr (obj', h'[q := v], k'))"
        if q: "q < length h" "q \<noteq> xo_matrix obj" for q v
      proof -
        have "RowChoiceExtraObject_reset_loop (obj\<lparr>xo_matrix := length h\<rparr>) ((h @ [?m])[q := v]) rnd (Suc k)
                = Some (Inr (obj', h'[q := v], k'))"
          using 5[of q v] q by simp
        then show ?thesis
          using q m b True
          by (subst RowChoiceExtraObject_reset_loop.simps)
             (simp add: np_new_def list_update_append1)
      qed
      from 1 t 3 4 f show ?thesis by auto
    qed
  qed
qed

lemma RowChoiceExtraObject_reset_props:
  assumes "RowChoiceExtraObject_reset obj h rnd k = Some (Inr (obj', h', (obr, obm), k'))"
  shows "Suc obm = length h' \<and> Suc obr = obm \<and> Suc (xo_rows obj') = obr
         \<and> length h \<le> xo_matrix obj' \<and> xo_matrix obj' < xo_rows obj'
         \<and> h' ! obr = h' ! xo_rows obj' \<and> h' ! obm = h' ! xo_matrix obj'
         \<and> take (length h) h' = h
         \<and> (\<forall>q v. q < length h \<longrightarrow>
               RowChoiceExtraObject_reset obj (h[q := v]) rnd k
                 = Some (Inr (obj', h'[q := v], (obr, obm), k')))"
proof -
  let ?m = "Arr2 (RowChoiceExtraObject_random_matrix obj (rnd k))"
  from assms obtain o2 h2 where
    l: "RowChoiceExtraObject_reset_loop (obj\<lparr>xo_matrix := length h\<rparr>) (h @ [?m]) rnd (Suc k)
          = Some (Inr (o2, h2, k'))" and
    o': "obj' = o2\<lparr>xo_rows := length h2\<rparr>" and
    h': "h' = h2 @ [Arr2 (replicate (xo_N o2) [1]), Arr2 (replicate (xo_N o2) [1]),
                   (h2 @ [Arr2 (replicate (xo_N o2) [1]), Arr2 (replicate (xo_N o2) [1])]) ! xo_matrix o2]"
    and obr: "obr = Suc (length h2)" and obm: "obm = Suc (Suc (length h2))"
    by (auto simp: RowChoiceExtraObject_reset_def np_new_def np_copy_def nth_append
          split: sum.splits option.splits prod.splits)
  from RowChoiceExtraObject_reset_loop_props[OF l] have
    1: "length (h @ [?m]) \<le> length h2" and
    2: "take (length (h @ [?m])) h2 = h @ [?m]" and
    3: "xo_matrix o2 < length h2" and
    4: "xo_matrix o2 = length h \<or> length (h @ [?m]) \<le> xo_matrix o2" and
    5: "\<And>q v. q < length (h @ [?m]) \<Longrightarrow> q \<noteq> length h \<Longrightarrow>
          RowChoiceExtraObject_reset_loop (obj\<lparr>xo_matrix := length h\<rparr>) ((h @ [?m])[q := v]) rnd (Suc k)
            = Some (Inr (o2, h2[q := v], k'))"
    by auto
  have "take (length h) h2 = h" using 2 by (rule take_append_one)
  then have t: "take (length h) h' = h" using 1 h' by simp
  have f: "RowChoiceExtraObject_reset obj (h[q := v]) rnd k
             = Some (Inr (obj', h'[q := v], (obr, obm), k'))"
    if q: "q < length h" for q v
  proof -
    have "RowChoiceExtraObject_reset_loop (obj\<lparr>xo_matrix := length h\<rparr>) ((h @ [?m])[q := v]) rnd (Suc k)
            = Some (Inr (o2, h2[q := v], k'))"
      using 5[of q v] q by simp
    moreover have "q \<noteq> xo_matrix o2" "q < length h2"
      using 4 q 1 by auto
    ultimately show ?thesis
      using q h' o' obr obm 3
      by (simp add: RowChoiceExtraObject_reset_def np_new_def np_copy_def list_update_append1
            nth_append)
  qed
  from 1 3 4 h' o' obr obm t f show ?thesis
    by (auto simp: nth_append)
qed

text \<open>
  Claim C7. With arrays as objects in a store: a returning \<open>step\<close> of
  \<open>RowEchelonEnvironment\<close>, \<open>RowChoiceEnvironment\<close> or \<open>RowChoiceEnvironmentExtra\<close>
  returns as observation a new array (for the last class two, the copies of \<open>rows\<close> and
  of the matrix), at an address that held no array before and is not the address of
  \<open>self.matrix\<close> or \<open>self.rows\<close>, with the contents of the array it copies; a returning
  \<open>reset\<close> of each class puts \<open>self.matrix\<close> (and \<open>self.rows\<close>) at a new address and
  returns new arrays with their contents. Overwriting any array other than
  \<open>self.matrix\<close> and \<open>self.rows\<close> (any array returned earlier is one) before a \<open>step\<close>
  or a \<open>reset\<close> changes nothing but that array: the call returns the same addresses,
  reward and \<open>done\<close>, the arrays of the environment and the returned observation have
  the same contents, and overwriting a returned array leaves the arrays of the
  environment as they are.
\<close>

theorem observations_are_fresh_copies:
  "(ro_matrix obj < length h \<and> RowEchelonObject_step obj h a = Inr (h', ob, r, d) \<longrightarrow>
      ob = length h \<and> ob \<noteq> ro_matrix obj \<and> h' ! ob = h' ! ro_matrix obj
      \<and> (\<forall>v. (h'[ob := v]) ! ro_matrix obj = h' ! ro_matrix obj)
      \<and> (\<forall>q v. q < length h \<and> q \<noteq> ro_matrix obj \<longrightarrow>
            RowEchelonObject_step obj (h[q := v]) a = Inr (h'[q := v], ob, r, d)
            \<and> (h'[q := v]) ! ob = h' ! ob
            \<and> (h'[q := v]) ! ro_matrix obj = h' ! ro_matrix obj))
   \<and> (co_matrix cobj < length ch \<and> RowChoiceObject_step cobj ch ca = Inr (ch', cob, cr, cd) \<longrightarrow>
      cob = length ch \<and> cob \<noteq> co_matrix cobj \<and> ch' ! cob = ch' ! co_matrix cobj
      \<and> (\<forall>v. (ch'[cob := v]) ! co_matrix cobj = ch' ! co_matrix cobj)
      \<and> (\<forall>q v. q < length ch \<and> q \<noteq> co_matrix cobj \<longrightarrow>
            RowChoiceObject_step cobj (ch[q := v]) ca = Inr (ch'[q := v], cob, cr, cd)
            \<and> (ch'[q := v]) ! cob = ch' ! cob
            \<and> (ch'[q := v]) ! co_matrix cobj = ch' ! co_matrix cobj))
   \<and> (xo_matrix xobj < length xh \<and> xo_rows xobj < length xh
        \<and> RowChoiceExtraObject_step xobj xh xa = Inr (xh', (xobr, xobm), xr, xd) \<longrightarrow>
      xobr = length xh \<and> xobm = Suc (length xh)
      \<and> xh' ! xobr = xh' ! xo_rows xobj \<and> xh' ! xobm = xh' ! xo_matrix xobj
      \<and> (\<forall>v w. (xh'[xobr := v, xobm := w]) ! xo_matrix xobj = xh' ! xo_matrix xobj
               \<and> (xh'[xobr := v, xobm := w]) ! xo_rows xobj = xh' ! xo_rows xobj)
      \<and> (\<forall>q v. q < length xh \<and> q \<noteq> xo_matrix xobj \<and> q \<noteq> xo_rows xobj \<longrightarrow>
            RowChoiceExtraObject_step xobj (xh[q := v]) xa = Inr (xh'[q := v], (xobr, xobm), xr, xd)
            \<and> (xh'[q := v]) ! xobr = xh' ! xobr \<and> (xh'[q := v]) ! xobm = xh' ! xobm
            \<and> (xh'[q := v]) ! xo_matrix xobj = xh' ! xo_matrix xobj
            \<and> (xh'[q := v]) ! xo_rows xobj = xh' ! xo_rows xobj))
   \<and> (RowEchelonObject_reset robj rh rnd k = Some (Inr (robj', rh', rob, k')) \<longrightarrow>
      Suc rob = length rh' \<and> length rh \<le> ro_matrix robj' \<and> ro_matrix robj' < rob
      \<and> rh' ! rob = rh' ! ro_matrix robj'
      \<and> (\<forall>v. (rh'[rob := v]) ! ro_matrix robj' = rh' ! ro_matrix robj')
      \<and> (\<forall>q v. q < length rh \<longrightarrow>
            RowEchelonObject_reset robj (rh[q := v]) rnd k = Some (Inr (robj', rh'[q := v], rob, k'))
            \<and> (rh'[q := v]) ! rob = rh' ! rob
            \<and> (rh'[q := v]) ! ro_matrix robj' = rh' ! ro_matrix robj'))
   \<and> (RowChoiceObject_reset sobj sh srnd sk = Some (Inr (sobj', sh', sob, sk')) \<longrightarrow>
      Suc sob = length sh' \<and> length sh \<le> co_matrix sobj' \<and> co_matrix sobj' < sob
      \<and> sh' ! sob = sh' ! co_matrix sobj'
      \<and> (\<forall>v. (sh'[sob := v]) ! co_matrix sobj' = sh' ! co_matrix sobj')
      \<and> (\<forall>q v. q < length sh \<longrightarrow>
            RowChoiceObject_reset sobj (sh[q := v]) srnd sk = Some (Inr (sobj', sh'[q := v], sob, sk'))
            \<and> (sh'[q := v]) ! sob = sh' ! sob
            \<and> (sh'[q := v]) ! co_matrix sobj' = sh' ! co_matrix sobj'))
   \<and> (RowChoiceExtraObject_reset yobj yh yrnd yk = Some (Inr (yobj', yh', (yobr, yobm), yk')) \<longrightarrow>
      Suc yobm = length yh' \<and> Suc yobr = yobm \<and> Suc (xo_rows yobj') = yobr
      \<and> length yh \<le> xo_matrix yobj' \<and> xo_matrix yobj' < xo_rows yobj'
      \<and> yh' ! yobr = yh' ! xo_rows yobj' \<and> yh' ! yobm = yh' ! xo_matrix yobj'
      \<and> (\<forall>v w. (yh'[yobr := v, yobm := w]) ! xo_matrix yobj' = yh' ! xo_matrix yobj'
               \<and> (yh'[yobr := v, yobm := w]) ! xo_rows yobj' = yh' ! xo_rows yobj')
      \<and> (\<forall>q v. q < length yh \<longrightarrow>
            RowChoiceExtraObject_reset yobj (yh[q := v]) yrnd yk
              = Some (Inr (yobj', yh'[q := v], (yobr, yobm), yk'))
            \<and> (yh'[q := v]) ! yobr = yh' ! yobr \<and> (yh'[q := v]) ! yobm = yh' ! yobm
            \<and> (yh'[q := v]) ! xo_matrix yobj' = yh' ! xo_matrix yobj'
            \<and> (yh'[q := v]) ! xo_rows yobj' = yh' ! xo_rows yobj'))"
proof (intro conjI impI)
  assume a: "ro_matrix obj < length h \<and> RowEchelonObject_step obj h a = Inr (h', ob, r, d)"
  then have p: "ro_matrix obj < length h" and st: "RowEchelonObject_step obj h a = Inr (h', ob, r, d)"
    by simp_all
  note fr = RowEchelonObject_step_fresh[OF p st]
  from fr have f1: "ob = length h" and f2: "length h' = Suc (length h)"
    and f3: "h' ! ob = h' ! ro_matrix obj"
    by blast+
  from f1 show "ob = length h" .
  from f1 p show "ob \<noteq> ro_matrix obj" by simp
  from f3 show "h' ! ob = h' ! ro_matrix obj" .
  from f1 p show "\<forall>v. (h'[ob := v]) ! ro_matrix obj = h' ! ro_matrix obj" by simp
  show "\<forall>q v. q < length h \<and> q \<noteq> ro_matrix obj \<longrightarrow>
            RowEchelonObject_step obj (h[q := v]) a = Inr (h'[q := v], ob, r, d)
            \<and> (h'[q := v]) ! ob = h' ! ob
            \<and> (h'[q := v]) ! ro_matrix obj = h' ! ro_matrix obj"
    using RowEchelonObject_step_frame[OF p, where a = a] st f1 p by simp
next
  assume a: "co_matrix cobj < length ch \<and> RowChoiceObject_step cobj ch ca = Inr (ch', cob, cr, cd)"
  then have p: "co_matrix cobj < length ch"
    and st: "RowChoiceObject_step cobj ch ca = Inr (ch', cob, cr, cd)"
    by simp_all
  note fr = RowChoiceObject_step_fresh[OF p st]
  from fr have f1: "cob = length ch" and f2: "length ch' = Suc (length ch)"
    and f3: "ch' ! cob = ch' ! co_matrix cobj"
    by blast+
  from f1 show "cob = length ch" .
  from f1 p show "cob \<noteq> co_matrix cobj" by simp
  from f3 show "ch' ! cob = ch' ! co_matrix cobj" .
  from f1 p show "\<forall>v. (ch'[cob := v]) ! co_matrix cobj = ch' ! co_matrix cobj" by simp
  show "\<forall>q v. q < length ch \<and> q \<noteq> co_matrix cobj \<longrightarrow>
            RowChoiceObject_step cobj (ch[q := v]) ca = Inr (ch'[q := v], cob, cr, cd)
            \<and> (ch'[q := v]) ! cob = ch' ! cob
            \<and> (ch'[q := v]) ! co_matrix cobj = ch' ! co_matrix cobj"
    using RowChoiceObject_step_frame[OF p, where a = ca] st f1 p by simp
next
  assume a: "xo_matrix xobj < length xh \<and> xo_rows xobj < length xh
        \<and> RowChoiceExtraObject_step xobj xh xa = Inr (xh', (xobr, xobm), xr, xd)"
  then have p: "xo_matrix xobj < length xh" "xo_rows xobj < length xh"
    and st: "RowChoiceExtraObject_step xobj xh xa = Inr (xh', (xobr, xobm), xr, xd)"
    by simp_all
  note fr = RowChoiceExtraObject_step_fresh[OF p st]
  from fr have f1: "xobr = length xh" and f2: "xobm = Suc (length xh)"
    and f3: "xh' ! xobr = xh' ! xo_rows xobj" and f4: "xh' ! xobm = xh' ! xo_matrix xobj"
    by blast+
  from f1 show "xobr = length xh" .
  from f2 show "xobm = Suc (length xh)" .
  from f3 show "xh' ! xobr = xh' ! xo_rows xobj" .
  from f4 show "xh' ! xobm = xh' ! xo_matrix xobj" .
  from f1 f2 p show "\<forall>v w. (xh'[xobr := v, xobm := w]) ! xo_matrix xobj = xh' ! xo_matrix xobj
               \<and> (xh'[xobr := v, xobm := w]) ! xo_rows xobj = xh' ! xo_rows xobj"
    by simp
  show "\<forall>q v. q < length xh \<and> q \<noteq> xo_matrix xobj \<and> q \<noteq> xo_rows xobj \<longrightarrow>
            RowChoiceExtraObject_step xobj (xh[q := v]) xa = Inr (xh'[q := v], (xobr, xobm), xr, xd)
            \<and> (xh'[q := v]) ! xobr = xh' ! xobr \<and> (xh'[q := v]) ! xobm = xh' ! xobm
            \<and> (xh'[q := v]) ! xo_matrix xobj = xh' ! xo_matrix xobj
            \<and> (xh'[q := v]) ! xo_rows xobj = xh' ! xo_rows xobj"
    using RowChoiceExtraObject_step_frame[OF p, where a = xa] st f1 f2 p by simp
next
  assume a: "RowEchelonObject_reset robj rh rnd k = Some (Inr (robj', rh', rob, k'))"
  note pr = RowEchelonObject_reset_props[OF a]
  from pr have g1: "Suc rob = length rh'" and g2: "length rh < rob"
    and g3: "ro_matrix robj' < rob" and g4: "length rh \<le> ro_matrix robj'"
    and g5: "rh' ! rob = rh' ! ro_matrix robj'"
    and g6: "\<And>q v. q < length rh \<Longrightarrow>
               RowEchelonObject_reset robj (rh[q := v]) rnd k = Some (Inr (robj', rh'[q := v], rob, k'))"
    by blast+
  from g1 show "Suc rob = length rh'" .
  from g4 show "length rh \<le> ro_matrix robj'" .
  from g3 show "ro_matrix robj' < rob" .
  from g5 show "rh' ! rob = rh' ! ro_matrix robj'" .
  from g3 show "\<forall>v. (rh'[rob := v]) ! ro_matrix robj' = rh' ! ro_matrix robj'" by simp
  from g2 g4 g6 show "\<forall>q v. q < length rh \<longrightarrow>
            RowEchelonObject_reset robj (rh[q := v]) rnd k = Some (Inr (robj', rh'[q := v], rob, k'))
            \<and> (rh'[q := v]) ! rob = rh' ! rob
            \<and> (rh'[q := v]) ! ro_matrix robj' = rh' ! ro_matrix robj'"
    by auto
next
  assume a: "RowChoiceObject_reset sobj sh srnd sk = Some (Inr (sobj', sh', sob, sk'))"
  note pr = RowChoiceObject_reset_props[OF a]
  from pr have g1: "Suc sob = length sh'" and g2: "length sh < sob"
    and g3: "co_matrix sobj' < sob" and g4: "length sh \<le> co_matrix sobj'"
    and g5: "sh' ! sob = sh' ! co_matrix sobj'"
    and g6: "\<And>q v. q < length sh \<Longrightarrow>
               RowChoiceObject_reset sobj (sh[q := v]) srnd sk = Some (Inr (sobj', sh'[q := v], sob, sk'))"
    by blast+
  from g1 show "Suc sob = length sh'" .
  from g4 show "length sh \<le> co_matrix sobj'" .
  from g3 show "co_matrix sobj' < sob" .
  from g5 show "sh' ! sob = sh' ! co_matrix sobj'" .
  from g3 show "\<forall>v. (sh'[sob := v]) ! co_matrix sobj' = sh' ! co_matrix sobj'" by simp
  from g2 g4 g6 show "\<forall>q v. q < length sh \<longrightarrow>
            RowChoiceObject_reset sobj (sh[q := v]) srnd sk = Some (Inr (sobj', sh'[q := v], sob, sk'))
            \<and> (sh'[q := v]) ! sob = sh' ! sob
            \<and> (sh'[q := v]) ! co_matrix sobj' = sh' ! co_matrix sobj'"
    by auto
next
  assume a: "RowChoiceExtraObject_reset yobj yh yrnd yk = Some (Inr (yobj', yh', (yobr, yobm), yk'))"
  note pr = RowChoiceExtraObject_reset_props[OF a]
  from pr have g1: "Suc yobm = length yh'" and g2: "Suc yobr = yobm"
    and g3: "Suc (xo_rows yobj') = yobr" and g4: "length yh \<le> xo_matrix yobj'"
    and g5: "xo_matrix yobj' < xo_rows yobj'"
    and g6: "yh' ! yobr = yh' ! xo_rows yobj'" and g7: "yh' ! yobm = yh' ! xo_matrix yobj'"
    and g8: "\<And>q v. q < length yh \<Longrightarrow>
               RowChoiceExtraObject_reset yobj (yh[q := v]) yrnd yk
                 = Some (Inr (yobj', yh'[q := v], (yobr, yobm), yk'))"
    by blast+
  from g1 show "Suc yobm = length yh'" .
  from g2 show "Suc yobr = yobm" .
  from g3 show "Suc (xo_rows yobj') = yobr" .
  from g4 show "length yh \<le> xo_matrix yobj'" .
  from g5 show "xo_matrix yobj' < xo_rows yobj'" .
  from g6 show "yh' ! yobr = yh' ! xo_rows yobj'" .
  from g7 show "yh' ! yobm = yh' ! xo_matrix yobj'" .
  from g2 g3 g5 show "\<forall>v w. (yh'[yobr := v, yobm := w]) ! xo_matrix yobj' = yh' ! xo_matrix yobj'
               \<and> (yh'[yobr := v, yobm := w]) ! xo_rows yobj' = yh' ! xo_rows yobj'"
    by auto
  from g2 g3 g4 g5 g8 show "\<forall>q v. q < length yh \<longrightarrow>
            RowChoiceExtraObject_reset yobj (yh[q := v]) yrnd yk
              = Some (Inr (yobj', yh'[q := v], (yobr, yobm), yk'))
            \<and> (yh'[q := v]) ! yobr = yh' ! yobr \<and> (yh'[q := v]) ! yobm = yh' ! yobm
            \<and> (yh'[q := v]) ! xo_matrix yobj' = yh' ! xo_matrix yobj'
            \<and> (yh'[q := v]) ! xo_rows yobj' = yh' ! xo_rows yobj'"
    by auto
qed

theorem observations_are_fresh_copies_witness:
  "RowEchelonObject_step
        \<lparr>ro_N = 2, ro_M = 2, ro_F = 2, ro_matrix = 0, ro_action_tuples = action_tuples_of 2\<rparr>
        [[[0, 1], [1, 0]], [[0, 1], [1, 0]]] 2
      = Inr ([[[1, 1], [1, 0]], [[0, 1], [1, 0]], [[1, 1], [1, 0]]], 2, - 1, False)
   \<and> RowEchelonObject_step
        \<lparr>ro_N = 2, ro_M = 2, ro_F = 2, ro_matrix = 0, ro_action_tuples = action_tuples_of 2\<rparr>
        ([[[0, 1], [1, 0]], [[0, 1], [1, 0]]][1 := [[7, 7], [7, 7]]]) 2
      = Inr ([[[1, 1], [1, 0]], [[0, 1], [1, 0]], [[1, 1], [1, 0]]][1 := [[7, 7], [7, 7]]], 2, - 1, False)
   \<and> RowChoiceObject_step \<lparr>co_N = 2, co_M = 2, co_density = 1 / 2, co_matrix = 0\<rparr>
        [[[1, 1], [0, 1]], [[1, 1], [0, 1]]] 1
      = Inr ([[[1, 0], [0, 1]], [[1, 1], [0, 1]], [[1, 0], [0, 1]]], 2, - 1, True)
   \<and> RowChoiceObject_step \<lparr>co_N = 2, co_M = 2, co_density = 1 / 2, co_matrix = 0\<rparr>
        ([[[1, 1], [0, 1]], [[1, 1], [0, 1]]][1 := [[7, 7], [7, 7]]]) 1
      = Inr ([[[1, 0], [0, 1]], [[1, 1], [0, 1]], [[1, 0], [0, 1]]][1 := [[7, 7], [7, 7]]], 2, - 1, True)
   \<and> RowChoiceExtraObject_step
        \<lparr>xo_N = 2, xo_M = 2, xo_density = 1 / 2, xo_matrix = 0, xo_rows = 1\<rparr>
        [Arr2 [[1, 1], [0, 1]], Arr2 [[1], [1]], Arr2 [[1, 1], [0, 1]]] 1
      = Inr ([Arr2 [[1, 0], [0, 1]], Arr2 [[1], [0]], Arr2 [[1, 1], [0, 1]],
              Arr2 [[1], [0]], Arr2 [[1, 0], [0, 1]]], (3, 4), - 1, True)
   \<and> RowChoiceExtraObject_step
        \<lparr>xo_N = 2, xo_M = 2, xo_density = 1 / 2, xo_matrix = 0, xo_rows = 1\<rparr>
        ([Arr2 [[1, 1], [0, 1]], Arr2 [[1], [1]], Arr2 [[1, 1], [0, 1]]][2 := Arr2 [[7, 7], [7, 7]]]) 1
      = Inr ([Arr2 [[1, 0], [0, 1]], Arr2 [[1], [0]], Arr2 [[1, 1], [0, 1]],
              Arr2 [[1], [0]], Arr2 [[1, 0], [0, 1]]][2 := Arr2 [[7, 7], [7, 7]]], (3, 4), - 1, True)
   \<and> RowEchelonObject_reset
        \<lparr>ro_N = 2, ro_M = 2, ro_F = 2, ro_matrix = 0, ro_action_tuples = action_tuples_of 2\<rparr>
        [[[0, 0], [0, 0]], [[0, 0], [0, 0]]]
        (\<lambda>k i j. if k = 0 then 0 else if i = j then 0 else 1) 0
      = Some (Inr (\<lparr>ro_N = 2, ro_M = 2, ro_F = 2, ro_matrix = 3, ro_action_tuples = action_tuples_of 2\<rparr>,
                   [[[0, 0], [0, 0]], [[0, 0], [0, 0]], [[0, 0], [0, 0]], [[0, 1], [1, 0]], [[0, 1], [1, 0]]],
                   4, 2))
   \<and> RowEchelonObject_reset
        \<lparr>ro_N = 2, ro_M = 2, ro_F = 2, ro_matrix = 0, ro_action_tuples = action_tuples_of 2\<rparr>
        ([[[0, 0], [0, 0]], [[0, 0], [0, 0]]][1 := [[7, 7], [7, 7]]])
        (\<lambda>k i j. if k = 0 then 0 else if i = j then 0 else 1) 0
      = Some (Inr (\<lparr>ro_N = 2, ro_M = 2, ro_F = 2, ro_matrix = 3, ro_action_tuples = action_tuples_of 2\<rparr>,
                   [[[0, 0], [0, 0]], [[0, 0], [0, 0]], [[0, 0], [0, 0]], [[0, 1], [1, 0]], [[0, 1], [1, 0]]]
                     [1 := [[7, 7], [7, 7]]],
                   4, 2))
   \<and> RowChoiceObject_reset \<lparr>co_N = 2, co_M = 2, co_density = 1 / 2, co_matrix = 0\<rparr>
        [[[0, 0], [0, 0]], [[0, 0], [0, 0]]]
        (\<lambda>k i j. if k = 0 then 0 else if i = 1 \<and> j = 0 then 0 else 9 / 10) 0
      = Some (Inr (\<lparr>co_N = 2, co_M = 2, co_density = 1 / 2, co_matrix = 3\<rparr>,
                   [[[0, 0], [0, 0]], [[0, 0], [0, 0]], [[0, 0], [0, 0]], [[1, 1], [0, 1]], [[1, 1], [0, 1]]],
                   4, 2))
   \<and> RowChoiceObject_reset \<lparr>co_N = 2, co_M = 2, co_density = 1 / 2, co_matrix = 0\<rparr>
        ([[[0, 0], [0, 0]], [[0, 0], [0, 0]]][1 := [[7, 7], [7, 7]]])
        (\<lambda>k i j. if k = 0 then 0 else if i = 1 \<and> j = 0 then 0 else 9 / 10) 0
      = Some (Inr (\<lparr>co_N = 2, co_M = 2, co_density = 1 / 2, co_matrix = 3\<rparr>,
                   [[[0, 0], [0, 0]], [[0, 0], [0, 0]], [[0, 0], [0, 0]], [[1, 1], [0, 1]], [[1, 1], [0, 1]]]
                     [1 := [[7, 7], [7, 7]]],
                   4, 2))
   \<and> RowChoiceExtraObject_reset
        \<lparr>xo_N = 2, xo_M = 2, xo_density = 1 / 2, xo_matrix = 0, xo_rows = 1\<rparr>
        [Arr2 [[0, 0], [0, 0]], Arr1 [1, 1]]
        (\<lambda>k i j. if k = 0 then 0 else if i = 1 \<and> j = 0 then 0 else 9 / 10) 0
      = Some (Inr (\<lparr>xo_N = 2, xo_M = 2, xo_density = 1 / 2, xo_matrix = 3, xo_rows = 4\<rparr>,
                   [Arr2 [[0, 0], [0, 0]], Arr1 [1, 1], Arr2 [[0, 0], [0, 0]], Arr2 [[1, 1], [0, 1]],
                    Arr2 [[1], [1]], Arr2 [[1], [1]], Arr2 [[1, 1], [0, 1]]],
                   (5, 6), 2))
   \<and> RowChoiceExtraObject_reset
        \<lparr>xo_N = 2, xo_M = 2, xo_density = 1 / 2, xo_matrix = 0, xo_rows = 1\<rparr>
        ([Arr2 [[0, 0], [0, 0]], Arr1 [1, 1]][1 := Arr2 [[7, 7], [7, 7]]])
        (\<lambda>k i j. if k = 0 then 0 else if i = 1 \<and> j = 0 then 0 else 9 / 10) 0
      = Some (Inr (\<lparr>xo_N = 2, xo_M = 2, xo_density = 1 / 2, xo_matrix = 3, xo_rows = 4\<rparr>,
                   [Arr2 [[0, 0], [0, 0]], Arr1 [1, 1], Arr2 [[0, 0], [0, 0]], Arr2 [[1, 1], [0, 1]],
                    Arr2 [[1], [1]], Arr2 [[1], [1]], Arr2 [[1, 1], [0, 1]]][1 := Arr2 [[7, 7], [7, 7]]],
                   (5, 6), 2))"
proof -
  let ?obj = "\<lparr>ro_N = 2, ro_M = 2, ro_F = 2, ro_matrix = 0, ro_action_tuples = action_tuples_of 2\<rparr>"
  let ?obj' = "\<lparr>ro_N = 2, ro_M = 2, ro_F = 2, ro_matrix = 3, ro_action_tuples = action_tuples_of 2\<rparr>"
  let ?h = "[[[0, 1], [1, 0]], [[0, 1], [1, 0 :: int]]]"
  let ?h' = "[[[1, 1], [1, 0]], [[0, 1], [1, 0]], [[1, 1], [1, 0 :: int]]]"
  let ?cobj = "\<lparr>co_N = 2, co_M = 2, co_density = 1 / 2, co_matrix = 0\<rparr>"
  let ?cobj' = "\<lparr>co_N = 2, co_M = 2, co_density = 1 / 2, co_matrix = 3\<rparr>"
  let ?ch = "[[[1, 1], [0, 1]], [[1, 1], [0, 1 :: int]]]"
  let ?ch' = "[[[1, 0], [0, 1]], [[1, 1], [0, 1]], [[1, 0], [0, 1 :: int]]]"
  let ?xobj = "\<lparr>xo_N = 2, xo_M = 2, xo_density = 1 / 2, xo_matrix = 0, xo_rows = 1\<rparr>"
  let ?xobj' = "\<lparr>xo_N = 2, xo_M = 2, xo_density = 1 / 2, xo_matrix = 3, xo_rows = 4\<rparr>"
  let ?xh = "[Arr2 [[1, 1], [0, 1]], Arr2 [[1], [1]], Arr2 [[1, 1], [0, 1]]]"
  let ?xh' = "[Arr2 [[1, 0], [0, 1]], Arr2 [[1], [0]], Arr2 [[1, 1], [0, 1]],
              Arr2 [[1], [0]], Arr2 [[1, 0], [0, 1]]]"
  let ?rh = "[[[0, 0], [0, 0]], [[0, 0], [0, 0 :: int]]]"
  let ?rh' = "[[[0, 0], [0, 0]], [[0, 0], [0, 0]], [[0, 0], [0, 0]], [[0, 1], [1, 0]], [[0, 1], [1, 0 :: int]]]"
  let ?sh' = "[[[0, 0], [0, 0]], [[0, 0], [0, 0]], [[0, 0], [0, 0]], [[1, 1], [0, 1]], [[1, 1], [0, 1 :: int]]]"
  let ?yh = "[Arr2 [[0, 0], [0, 0]], Arr1 [1, 1]]"
  let ?yh' = "[Arr2 [[0, 0], [0, 0]], Arr1 [1, 1], Arr2 [[0, 0], [0, 0]], Arr2 [[1, 1], [0, 1]],
                    Arr2 [[1], [1]], Arr2 [[1], [1]], Arr2 [[1, 1], [0, 1]]]"
  let ?rnd = "\<lambda>k i j. if k = 0 then 0 else if i = j then 0 else (1::int)"
  let ?srnd = "\<lambda>k i j. if k = (0::nat) then 0 else if i = (1::nat) \<and> j = (0::nat) then 0 else (9 / 10 :: real)"
  have p: "ro_matrix ?obj < length ?h" "co_matrix ?cobj < length ?ch"
    "xo_matrix ?xobj < length ?xh" "xo_rows ?xobj < length ?xh" by simp_all
  have s1: "RowEchelonObject_step ?obj ?h 2 = Inr (?h', 2, - 1, False)"
    by code_simp
  have s2: "RowChoiceObject_step ?cobj ?ch 1 = Inr (?ch', 2, - 1, True)"
    by code_simp
  have s3: "RowChoiceExtraObject_step ?xobj ?xh 1 = Inr (?xh', (3, 4), - 1, True)"
    by code_simp
  have s4: "RowEchelonObject_reset ?obj ?rh ?rnd 0 = Some (Inr (?obj', ?rh', 4, 2))"
    by code_simp
  have s5: "RowChoiceObject_reset ?cobj ?rh ?srnd 0 = Some (Inr (?cobj', ?sh', 4, 2))"
    by code_simp
  have s6: "RowChoiceExtraObject_reset ?xobj ?yh ?srnd 0 = Some (Inr (?xobj', ?yh', (5, 6), 2))"
    by code_simp
  have q: "(1::nat) < length ?h \<and> 1 \<noteq> ro_matrix ?obj" "(1::nat) < length ?ch \<and> 1 \<noteq> co_matrix ?cobj"
    "(2::nat) < length ?xh \<and> 2 \<noteq> xo_matrix ?xobj \<and> 2 \<noteq> xo_rows ?xobj"
    "(1::nat) < length ?rh" "(1::nat) < length ?yh"
    by simp_all
  from observations_are_fresh_copies[of ?obj ?h 2 ?h' 2 "- 1" False ?cobj ?ch 1 ?ch' 2 "- 1" True
      ?xobj ?xh 1 ?xh' 3 4 "- 1" True
      ?obj ?rh ?rnd 0 ?obj' ?rh' 4 2
      ?cobj ?rh ?srnd 0 ?cobj' ?sh' 4 2
      ?xobj ?yh ?srnd 0 ?xobj' ?yh' 5 6 2] p s1 s2 s3 s4 s5 s6
  have "RowEchelonObject_step ?obj (?h[1 := [[7, 7], [7, 7]]]) 2
          = Inr (?h'[1 := [[7, 7], [7, 7]]], 2, - 1, False)"
    and "RowChoiceObject_step ?cobj (?ch[1 := [[7, 7], [7, 7]]]) 1
          = Inr (?ch'[1 := [[7, 7], [7, 7]]], 2, - 1, True)"
    and "RowChoiceExtraObject_step ?xobj (?xh[2 := Arr2 [[7, 7], [7, 7]]]) 1
          = Inr (?xh'[2 := Arr2 [[7, 7], [7, 7]]], (3, 4), - 1, True)"
    and "RowEchelonObject_reset ?obj (?rh[1 := [[7, 7], [7, 7]]]) ?rnd 0
          = Some (Inr (?obj', ?rh'[1 := [[7, 7], [7, 7]]], 4, 2))"
    and "RowChoiceObject_reset ?cobj (?rh[1 := [[7, 7], [7, 7]]]) ?srnd 0
          = Some (Inr (?cobj', ?sh'[1 := [[7, 7], [7, 7]]], 4, 2))"
    and "RowChoiceExtraObject_reset ?xobj (?yh[1 := Arr2 [[7, 7], [7, 7]]]) ?srnd 0
          = Some (Inr (?xobj', ?yh'[1 := Arr2 [[7, 7], [7, 7]]], (5, 6), 2))"
    using q by blast+
  with s1 s2 s3 s4 s5 s6 show ?thesis by simp
qed

end
